theory Spec2Isabelle
  imports Main "HOL-Library.Word" "HOL-Library.AList"
begin

unbundle bit_operations_syntax

section \<open>Bytes and byte-wise comparison\<close>

type_synonym byte = "8 word"
type_synonym bytes = "byte list"

text \<open>
  Go's \<^verbatim>\<open>bytes.Compare\<close>: lexicographic comparison of two byte slices,
  returning -1, 0 or 1.
\<close>

fun bytes_Compare :: "bytes \<Rightarrow> bytes \<Rightarrow> int" where
  "bytes_Compare [] [] = 0"
| "bytes_Compare [] (y # ys) = -1"
| "bytes_Compare (x # xs) [] = 1"
| "bytes_Compare (x # xs) (y # ys) =
     (if x < y then -1 else if y < x then 1 else bytes_Compare xs ys)"

text \<open>The strict lexicographic order on byte strings, from the HOL library.\<close>

definition bytes_lex :: "(bytes \<times> bytes) set" where
  "bytes_lex = lexord {(u, v). u < v}"

section \<open>Nibble utilities of the sub-trie loader (trie package)\<close>

text \<open>
  \<^verbatim>\<open>nextSubtree\<close> copies its argument into a fresh slice \<open>r\<close> and walks it from
  the last index down to 0. The loop counter \<open>Suc i\<close> of the model is the source's \<open>i + 1\<close>;
  the source's \<open>(r, true)\<close> is \<open>Some r\<close> and \<open>(nil, false)\<close> is \<open>None\<close>.
\<close>

fun nextSubtree_loop :: "bytes \<Rightarrow> nat \<Rightarrow> bytes option" where
  "nextSubtree_loop r 0 = None"
| "nextSubtree_loop r (Suc i) =
     (if r ! i \<noteq> 255 then Some (r[i := r ! i + 1])
      else nextSubtree_loop (r[i := 0]) i)"

definition nextSubtree :: "bytes \<Rightarrow> bytes option" where
  "nextSubtree inp = (let r = inp in nextSubtree_loop r (length r))"

text \<open>
  The same call with the caller's slice made explicit: the pair is the content of the
  argument slice after the call and the result. All writes of the loop go to the copy.
\<close>

definition nextSubtree_call :: "bytes \<Rightarrow> bytes \<times> bytes option" where
  "nextSubtree_call inp = (let r = inp in (inp, nextSubtree_loop r (length r)))"

text \<open>
  \<^verbatim>\<open>keyIsBefore\<close>: a Go slice that may be \<open>nil\<close> is a \<open>bytes option\<close>.
\<close>

definition keyIsBefore :: "bytes option \<Rightarrow> bytes option \<Rightarrow> bool \<times> bytes option" where
  "keyIsBefore k1 k2 =
     (case k1 of
        None \<Rightarrow> (False, k2)
      | Some a \<Rightarrow>
          (case k2 of
             None \<Rightarrow> (True, k1)
           | Some b \<Rightarrow>
               (if bytes_Compare a b = -1 \<or> bytes_Compare a b = 0 then (True, k1)
                else (False, k2))))"

section \<open>Keccak-256 and RLP, as used by the hasher\<close>

text \<open>
  The hasher is \<^verbatim>\<open>sha3.NewLegacyKeccak256()\<close> of golang.org/x/crypto, an external
  library: Keccak-f[1600] with rate 136 bytes and the original Keccak padding (\<open>0x01\<close>,
  zeros, \<open>0x80\<close>). A state is 25 lanes of 64 bits, lane \<open>(x, y)\<close> at index
  \<open>x + 5 * y\<close>.
\<close>

type_synonym lane = "64 word"

definition rotl64 :: "lane \<Rightarrow> nat \<Rightarrow> lane" where
  "rotl64 w n = (push_bit n w) OR (drop_bit (64 - n) w)"

definition keccak_RC :: "lane list" where
  "keccak_RC =
    [0x0000000000000001, 0x0000000000008082, 0x800000000000808A, 0x8000000080008000,
     0x000000000000808B, 0x0000000080000001, 0x8000000080008081, 0x8000000000008009,
     0x000000000000008A, 0x0000000000000088, 0x0000000080008009, 0x000000008000000A,
     0x000000008000808B, 0x800000000000008B, 0x8000000000008089, 0x8000000000008003,
     0x8000000000008002, 0x8000000000000080, 0x000000000000800A, 0x800000008000000A,
     0x8000000080008081, 0x8000000000008080, 0x0000000080000001, 0x8000000080008008]"

text \<open>
  Rho and pi in one table: output lane \<open>j\<close> is input lane \<open>rhopi_src ! j\<close> rotated
  left by \<open>rhopi_rot ! j\<close>.
\<close>

definition rhopi_src :: "nat list" where
  "rhopi_src = [0, 6, 12, 18, 24, 3, 9, 10, 16, 22, 1, 7, 13, 19, 20, 4, 5, 11, 17, 23,
                2, 8, 14, 15, 21]"

definition rhopi_rot :: "nat list" where
  "rhopi_rot = [0, 44, 43, 21, 14, 28, 20, 3, 45, 61, 1, 6, 25, 8, 18, 27, 36, 10, 15, 56,
                62, 55, 39, 41, 2]"

definition theta_C :: "lane list \<Rightarrow> lane list" where
  "theta_C A = map (\<lambda>x. A ! x XOR A ! (x + 5) XOR A ! (x + 10) XOR A ! (x + 15) XOR A ! (x + 20))
                   [0, 1, 2, 3, 4]"

definition theta_D :: "lane list \<Rightarrow> lane list" where
  "theta_D C = map2 (\<lambda>l r. C ! l XOR rotl64 (C ! r) 1) [4, 0, 1, 2, 3] [1, 2, 3, 4, 0]"

definition keccak_theta :: "lane list \<Rightarrow> lane list" where
  "keccak_theta A = (let D = theta_D (theta_C A) in map2 (XOR) A (D @ D @ D @ D @ D))"

definition keccak_rhopi :: "lane list \<Rightarrow> lane list" where
  "keccak_rhopi A = map2 (\<lambda>s r. rotl64 (A ! s) r) rhopi_src rhopi_rot"

fun keccak_chi :: "lane list \<Rightarrow> lane list" where
  "keccak_chi (b0 # b1 # b2 # b3 # b4 # rest) =
     [b0 XOR (NOT b1 AND b2), b1 XOR (NOT b2 AND b3), b2 XOR (NOT b3 AND b4),
      b3 XOR (NOT b4 AND b0), b4 XOR (NOT b0 AND b1)] @ keccak_chi rest"
| "keccak_chi _ = []"

fun keccak_iota :: "lane \<Rightarrow> lane list \<Rightarrow> lane list" where
  "keccak_iota rc (a # as) = (a XOR rc) # as"
| "keccak_iota rc [] = []"

definition keccak_round :: "lane list \<Rightarrow> lane \<Rightarrow> lane list" where
  "keccak_round A rc = keccak_iota rc (keccak_chi (keccak_rhopi (keccak_theta A)))"

definition keccak_f :: "lane list \<Rightarrow> lane list" where
  "keccak_f A = foldl keccak_round A keccak_RC"

fun le_lanes :: "bytes \<Rightarrow> lane list" where
  "le_lanes (b0 # b1 # b2 # b3 # b4 # b5 # b6 # b7 # rest) =
     (ucast b0 OR push_bit 8 (ucast b1) OR push_bit 16 (ucast b2) OR push_bit 24 (ucast b3) OR
      push_bit 32 (ucast b4) OR push_bit 40 (ucast b5) OR push_bit 48 (ucast b6) OR
      push_bit 56 (ucast b7)) # le_lanes rest"
| "le_lanes _ = []"

definition lane_bytes :: "lane \<Rightarrow> bytes" where
  "lane_bytes w = map (\<lambda>k. ucast (drop_bit k w)) [0, 8, 16, 24, 32, 40, 48, 56]"

fun xor_into :: "lane list \<Rightarrow> lane list \<Rightarrow> lane list" where
  "xor_into (a # as) (l # ls) = (a XOR l) # xor_into as ls"
| "xor_into as [] = as"
| "xor_into [] ls = []"

definition keccak_pad :: "bytes \<Rightarrow> bytes" where
  "keccak_pad m = (let p = m @ [1] @ replicate (135 - length m mod 136) 0
                   in butlast p @ [last p OR 0x80])"

function keccak_absorb :: "lane list \<Rightarrow> bytes \<Rightarrow> lane list" where
  "keccak_absorb A p =
     (if length p < 136 then A
      else keccak_absorb (keccak_f (xor_into A (le_lanes (take 136 p)))) (drop 136 p))"
  by pat_completeness auto
termination
  by (relation "measure (\<lambda>(A, p). length p)") auto

declare keccak_absorb.simps [simp del]

definition keccak256 :: "bytes \<Rightarrow> bytes" where
  "keccak256 m =
     concat (map lane_bytes (take 4 (keccak_absorb (replicate 25 0) (keccak_pad m))))"

text \<open>
  RLP as section 4.A of the specification states it: a single byte below \<open>0x80\<close> is
  itself; a byte string of length \<open>L\<close> is \<open>0x80 + L\<close> (for \<open>L < 56\<close>) or
  \<open>0xb7 + |len|\<close> and the big-endian length, then the payload; lists likewise from
  \<open>0xc0\<close> and \<open>0xf7\<close>.
\<close>

function be_bytes :: "nat \<Rightarrow> bytes" where
  "be_bytes n = (if n = 0 then [] else be_bytes (n div 256) @ [of_nat (n mod 256)])"
  by pat_completeness auto
termination
  by (relation "measure id") auto

declare be_bytes.simps [simp del]

definition rlp_header :: "nat \<Rightarrow> nat \<Rightarrow> bytes" where
  "rlp_header base L =
     (if L < 56 then [of_nat (base + L)]
      else of_nat (base + 55 + length (be_bytes L)) # be_bytes L)"

definition rlp_string :: "bytes \<Rightarrow> bytes" where
  "rlp_string bs = (if length bs = 1 \<and> hd bs < 0x80 then bs else rlp_header 0x80 (length bs) @ bs)"

definition rlp_list :: "bytes list \<Rightarrow> bytes" where
  "rlp_list items = rlp_header 0xc0 (length (concat items)) @ concat items"

text \<open>
  Compact (hex-prefix) encoding of a nibble path, Appendix C of the yellow paper, to which
  section 4.B of the specification refers: the high nibble of the first byte is
  \<open>2 * terminator + odd\<close>; an odd path puts its first nibble in the low half of that
  byte, an even path a zero; the rest is packed two nibbles to a byte.
\<close>

fun pack_nibbles :: "bytes \<Rightarrow> bytes" where
  "pack_nibbles (a # b # rest) = (a * 16 + b) # pack_nibbles rest"
| "pack_nibbles _ = []"

definition compact_encode :: "bytes \<Rightarrow> bool \<Rightarrow> bytes" where
  "compact_encode nibbles term =
     (let flag = (if term then 2 else 0) + (if odd (length nibbles) then 1 else 0)
      in if odd (length nibbles)
         then (16 * flag + hd nibbles) # pack_nibbles (tl nibbles)
         else (16 * flag) # pack_nibbles nibbles)"

section \<open>The HashBuilder stack machine (trie/hashbuilder.go)\<close>

datatype error =
    ErrLength int
  | ErrWrongNodeType
  | ErrWrongValType
  | ErrExtensionOnNode
  | ErrNodeStack nat nat
  | ErrHashStack nat nat
  | ErrNoRoot
  | ErrWriter
  | Panic

text \<open>
  \<open>Panic\<close> stands for a Go run-time panic (an index or a slice bound out of range);
  the other constructors are the errors the source returns.
  \<open>common.HashLength\<close> is 32 and \<open>hashStackStride\<close> is 33.
\<close>

abbreviation HashLength :: nat where "HashLength \<equiv> 32"
abbreviation hashStackStride :: nat where "hashStackStride \<equiv> 33"

text \<open>
  The empty-trie root of the state package (line 1010 of its source file),
  \<^verbatim>\<open>common.HexToHash("56e81f17...63b421")\<close>, as its 32 bytes.
\<close>

definition state_emptyRoot :: bytes where
  "state_emptyRoot =
    [0x56, 0xe8, 0x1f, 0x17, 0x1b, 0xcc, 0x55, 0xa6, 0xff, 0x83, 0x45, 0xe6, 0x92, 0xc0, 0xf8, 0x6e,
     0x5b, 0x48, 0xe0, 0x1b, 0x99, 0x6c, 0xad, 0xc0, 0x01, 0x62, 0x2f, 0xb5, 0xe3, 0x63, 0xb4, 0x21]"

text \<open>
  Modelled from the spec: the trie package's \<open>EmptyRoot\<close>, which hashbuilder.go reads, is
  declared outside the given sources. Section 3 and property 1 of section 8 make it the
  fixed constant \<open>0x56e81f...3b421\<close>, the one the state package spells out.
\<close>

definition EmptyRoot :: bytes where
  "EmptyRoot = state_emptyRoot"

definition EmptyCodeHash :: bytes where
  "EmptyCodeHash = keccak256 []"

text \<open>
  \<open>accounts.Account\<close> as hashbuilder.go uses it; the type is declared outside the given
  sources, these are the fields the HashBuilder touches.
\<close>

record Account =
  Initialised :: bool
  Nonce :: "64 word"
  Balance :: "256 word"
  Root :: bytes
  CodeHash :: bytes
  Incarnation :: "64 word"

text \<open>
  Trie nodes on the node stack. \<open>NilNode\<close> is the nil interface value. A short node is
  (Key, Val, ref.data, ref.len, witnessLength); a full node is (Children, ref.data, ref.len,
  witnessLength); a hash node is (hash, witnessLength); an account node is (Account,
  storage, rootCorrect, code, codeSize). A code node wraps a slice that may be nil.
\<close>

datatype node =
    NilNode
  | hashNode bytes "64 word"
  | valueNode bytes
  | codeNode "bytes option"
  | shortNode bytes node bytes byte "64 word"
  | fullNode "node list" bytes byte "64 word"
  | accountNode Account node bool "bytes option" int

text \<open>
  The interface \<open>rlphacks.RlpSerializable\<close>: what the HashBuilder asks of a value.
  \<open>ToDoubleRLP\<close> is the bytes the value writes to the writer it is given, or the error
  it returns.
\<close>

record RlpSerializable =
  RawBytes :: bytes
  DoubleRLPLen :: nat
  ToDoubleRLP :: "error + bytes"

text \<open>
  Modelled from the spec: \<open>rlphacks.RlpEncodedBytes\<close> is declared outside the given
  sources. It wraps bytes that are already RLP; hashing wraps them once more as an RLP byte
  string (section 4.A).
\<close>

definition RlpEncodedBytes :: "bytes \<Rightarrow> RlpSerializable" where
  "RlpEncodedBytes b =
     \<lparr>RawBytes = b, DoubleRLPLen = length (rlp_string b), ToDoubleRLP = Inr (rlp_string b)\<rparr>"

text \<open>
  Methods of \<open>accounts.Account\<close> and a constant that hashbuilder.go calls and that are
  declared outside the given sources, taken as parameters. \<open>EncodeForHashing\<close> gives the
  bytes the method writes from the start of the buffer it is handed.
\<close>

record AccountEnv =
  EncodingLengthForHashing :: "Account \<Rightarrow> nat"
  EncodeForHashing :: "Account \<Rightarrow> bytes"
  EncodingLengthForStorage :: "Account \<Rightarrow> nat"
  codeSizeUncached :: int

text \<open>
  The HashBuilder. The stacks grow at the end, as Go's \<open>append\<close> does. Of the scratch
  buffers only \<open>hashBuf\<close> (33 bytes) and \<open>valBuf\<close> (128 bytes) are state: the others
  (\<open>keyPrefix\<close>, \<open>lenPrefix\<close>, \<open>b\<close>, \<open>prefixBuf\<close>) are written before they are
  read in every call and are locals of the model. The Keccak state \<open>sha\<close> is reset
  before each use: what it absorbs is a byte string, and \<open>Read\<close> is \<open>keccak256\<close> of it.
\<close>

record HashBuilder =
  hashStack :: bytes
  nodeStack :: "node list"
  dataLenStack :: "64 word list"
  acc :: Account
  hashBuf :: bytes
  valBuf :: bytes

definition zeroAccount :: Account where
  "zeroAccount = \<lparr>Initialised = False, Nonce = 0, Balance = 0, Root = replicate 32 0,
                   CodeHash = replicate 32 0, Incarnation = 0\<rparr>"

definition NewHashBuilder :: HashBuilder where
  "NewHashBuilder = \<lparr>hashStack = [], nodeStack = [], dataLenStack = [], acc = zeroAccount,
                      hashBuf = replicate 33 0, valBuf = replicate 128 0\<rparr>"

definition Reset :: "HashBuilder \<Rightarrow> HashBuilder" where
  "Reset hb =
     (let hb1 = (if length (hashStack hb) > 0 then hb\<lparr>hashStack := []\<rparr> else hb);
          hb2 = (if length (nodeStack hb1) > 0 then hb1\<lparr>nodeStack := []\<rparr> else hb1)
      in if length (dataLenStack hb2) > 0 then hb2\<lparr>dataLenStack := []\<rparr> else hb2)"

text \<open>
  Modelled from the spec: \<open>hasTerm\<close> is declared outside the given sources. Section 3:
  a terminated path ends with the sentinel nibble 16.
\<close>

definition hasTerm :: "bytes \<Rightarrow> bool" where
  "hasTerm s \<longleftrightarrow> length s > 0 \<and> last s = 16"

text \<open>
  Modelled from the spec: \<open>rlphacks.GenerateStructLen\<close> is declared outside the given
  sources. It writes the RLP list header for a payload of \<open>l\<close> bytes (section 4.A) into
  the 4-byte buffer \<open>lenPrefix\<close> and returns its length; the model returns the header.
  Four bytes hold at most three bytes of length.
\<close>

definition GenerateStructLen :: "nat \<Rightarrow> bytes" where
  "GenerateStructLen l =
     (if l < 56 then [of_nat (192 + l)]
      else if l < 256 then [248, of_nat l]
      else if l < 65536 then [249, of_nat (l div 256), of_nat (l mod 256)]
      else [250, of_nat (l div 65536), of_nat ((l div 256) mod 256), of_nat (l mod 256)])"

text \<open>
  The compact-key prelude that \<open>leafHashWithKeyVal\<close>, \<open>accountLeafHashWithKey\<close> and
  \<open>extensionHash\<close> each spell out (the three copies differ only in how the constants
  are written). The result is (\<open>keyPrefix[:kp]\<close>, kl, compactLen, compact0, ni).
  \<open>key[0]\<close> is read only where the key is not empty.
\<close>

definition compactKey :: "bytes \<Rightarrow> bytes \<times> nat \<times> nat \<times> byte \<times> nat" where
  "compactKey key =
     (let (compactLen, compact0, ni) =
            (if hasTerm key then
               ((length key - 1) div 2 + 1,
                if even (length key) then (0x30 + key ! 0, 1) else (0x20, 0))
             else
               (length key div 2 + 1,
                if odd (length key) then (0x10 + key ! 0, 1) else (0, 0)))
      in if compactLen > 1 then ([0x80 + of_nat compactLen], compactLen, compactLen, compact0, ni)
         else ([], 1, compactLen, compact0, ni))"

text \<open>
  The loop \<open>for i := 1; i < compactLen; i++\<close> that packs two nibbles to a byte from
  index \<open>ni\<close> on; the last argument counts the iterations left.
\<close>

fun compactTail :: "bytes \<Rightarrow> nat \<Rightarrow> nat \<Rightarrow> bytes" where
  "compactTail key ni 0 = []"
| "compactTail key ni (Suc n) = (key ! ni * 16 + key ! (ni + 1)) # compactTail key (ni + 2) n"

text \<open>
  The two writers of \<open>completeLeafHash\<close>. The Keccak state collects what is written.
  Modelled from the spec: \<open>ByteArrayWriter\<close> is declared outside the given sources; after
  \<open>Setup(dest, pos)\<close> each \<open>Write\<close> copies into \<open>dest\<close> from \<open>pos\<close> on and
  advances \<open>pos\<close>, which is how the slot comes to carry the embedded RLP from its first
  byte (section 4.C). Go's \<open>copy\<close> stops at the end of \<open>dest\<close>; slicing \<open>dest\<close> from
  a position beyond its end panics.
\<close>

datatype writer = ShaWriter bytes | BufWriter bytes nat

fun writer_Write :: "writer \<Rightarrow> bytes \<Rightarrow> error + writer" where
  "writer_Write (ShaWriter absorbed) data = Inr (ShaWriter (absorbed @ data))"
| "writer_Write (BufWriter dest pos) data =
     (if pos > length dest then Inl Panic
      else Inr (BufWriter (take pos dest @ take (length dest - pos) data @
                           drop (pos + length data) dest) (pos + length data)))"

fun writer_Writes :: "writer \<Rightarrow> bytes list \<Rightarrow> error + writer" where
  "writer_Writes w [] = Inr w"
| "writer_Writes w (d # ds) =
     (case writer_Write w d of Inl e \<Rightarrow> Inl e | Inr w' \<Rightarrow> writer_Writes w' ds)"

text \<open>
  \<open>completeLeafHash\<close>: the writes in source order are the list header, the key prefix,
  \<open>compact0\<close>, one byte per loop iteration, then what the value writes.
\<close>

definition completeLeafHash ::
  "HashBuilder \<Rightarrow> bytes \<Rightarrow> nat \<Rightarrow> nat \<Rightarrow> bytes \<Rightarrow> byte \<Rightarrow> nat \<Rightarrow> RlpSerializable \<Rightarrow>
   error + HashBuilder" where
  "completeLeafHash hb keyPrefix kl compactLen key compact0 ni val =
     (let totalLen = length keyPrefix + kl + DoubleRLPLen val;
          lenPrefix = GenerateStructLen totalLen;
          pt = length lenPrefix;
          embedded = (totalLen + pt < HashLength);
          w0 = (if embedded then BufWriter (hashBuf hb) 0 else ShaWriter [])
      in case writer_Writes w0
                ([lenPrefix, keyPrefix, [compact0]] @
                 map (\<lambda>b. [b]) (compactTail key ni (compactLen - 1))) of
           Inl e \<Rightarrow> Inl e
         | Inr w1 \<Rightarrow>
             (case ToDoubleRLP val of
                Inl e \<Rightarrow> Inl e
              | Inr vbytes \<Rightarrow>
                  (case writer_Write w1 vbytes of
                     Inl e \<Rightarrow> Inl e
                   | Inr (BufWriter dest pos) \<Rightarrow> Inr (hb\<lparr>hashBuf := dest\<rparr>)
                   | Inr (ShaWriter absorbed) \<Rightarrow>
                       Inr (hb\<lparr>hashBuf := (0x80 + of_nat HashLength) # keccak256 absorbed\<rparr>))))"

definition leafHashWithKeyVal ::
  "HashBuilder \<Rightarrow> bytes \<Rightarrow> RlpSerializable \<Rightarrow> error + HashBuilder" where
  "leafHashWithKeyVal hb key val =
     (let (keyPrefix, kl, compactLen, compact0, ni) = compactKey key
      in case completeLeafHash hb keyPrefix kl compactLen key compact0 ni val of
           Inl e \<Rightarrow> Inl e
         | Inr hb1 \<Rightarrow>
             (let hb2 = hb1\<lparr>dataLenStack := dataLenStack hb1 @
                               [of_nat (length (RawBytes val)) + 1 + of_nat (length key) div 2]\<rparr>;
                  hb3 = hb2\<lparr>hashStack := hashStack hb2 @ hashBuf hb2\<rparr>
              in Inr (if length (hashStack hb3) > hashStackStride * length (nodeStack hb3)
                      then hb3\<lparr>nodeStack := nodeStack hb3 @ [NilNode]\<rparr> else hb3)))"

text \<open>
  Setting \<open>ref\<close> and \<open>witnessLength\<close> of a node through the pointer the stack holds.
\<close>

fun setRef :: "node \<Rightarrow> bytes \<Rightarrow> byte \<Rightarrow> 64 word \<Rightarrow> node" where
  "setRef (shortNode k v d l w) d' l' w' = shortNode k v d' l' w'"
| "setRef (fullNode c d l w) d' l' w' = fullNode c d' l' w'"
| "setRef n d' l' w' = n"

definition leaf :: "HashBuilder \<Rightarrow> int \<Rightarrow> bytes \<Rightarrow> RlpSerializable \<Rightarrow> error + HashBuilder" where
  "leaf hb len keyHex val =
     (if len < 0 then Inl (ErrLength len)
      else if nat len > length keyHex then Inl Panic
      else
        (let key = drop (length keyHex - nat len) keyHex;
             s = shortNode key (valueNode (RawBytes val)) (replicate 32 0) 0 0;
             at = length (nodeStack hb);
             hb0 = hb\<lparr>nodeStack := nodeStack hb @ [s]\<rparr>
         in case leafHashWithKeyVal hb0 key val of
              Inl e \<Rightarrow> Inl e
            | Inr hb1 \<Rightarrow>
                (let hs = hashStack hb1;
                     slot = drop (length hs - hashStackStride) hs;
                     len0 = slot ! 0 - 0x80;
                     (refdata, reflen) =
                        (if len0 > 32 then (take HashLength slot, slot ! 0 - 0xc0 + 1)
                         else (drop 1 slot, len0))
                 in Inr (hb1\<lparr>nodeStack := (nodeStack hb1)
                           [at := setRef s refdata reflen (last (dataLenStack hb1))]\<rparr>))))"

text \<open>
  \<open>accountLeafHashWithKey\<close>. The encoded account is written to \<open>valBuf\<close> and read
  back as \<open>valBuf[:valLen]\<close>; both panic beyond the 128 bytes of the buffer. The three
  slice expressions that pop panic when a stack holds fewer than \<open>popped\<close> slots.
\<close>

definition accountLeafHashWithKey ::
  "AccountEnv \<Rightarrow> HashBuilder \<Rightarrow> bytes \<Rightarrow> nat \<Rightarrow> error + HashBuilder" where
  "accountLeafHashWithKey env hb key popped =
     (let (keyPrefix, kl, compactLen, compact0, ni) = compactKey key;
          valLen = EncodingLengthForHashing env (acc hb);
          enc = EncodeForHashing env (acc hb)
      in if length enc > length (valBuf hb) \<or> valLen > length (valBuf hb) then Inl Panic
         else
           (let hb0 = hb\<lparr>valBuf := enc @ drop (length enc) (valBuf hb)\<rparr>;
                val = RlpEncodedBytes (take valLen (valBuf hb0))
            in case completeLeafHash hb0 keyPrefix kl compactLen key compact0 ni val of
                 Inl e \<Rightarrow> Inl e
               | Inr hb1 \<Rightarrow>
                   (let dataLen0 = 1 + of_nat (EncodingLengthForStorage env (acc hb1)) +
                                   (1 + of_nat (length key) div 2)
                    in if popped > 0 \<and>
                          (length (hashStack hb1) < popped * hashStackStride \<or>
                           length (nodeStack hb1) < popped \<or>
                           length (dataLenStack hb1) < popped)
                       then Inl Panic
                       else
                         (let n = length (dataLenStack hb1);
                              dataLen = dataLen0 + sum_list (drop (n - popped) (dataLenStack hb1));
                              hb2 = hb1\<lparr>hashStack := take (length (hashStack hb1) -
                                                             popped * hashStackStride) (hashStack hb1),
                                        nodeStack := take (length (nodeStack hb1) - popped)
                                                          (nodeStack hb1),
                                        dataLenStack := take (n - popped) (dataLenStack hb1)\<rparr>
                          in Inr (hb2\<lparr>hashStack := hashStack hb2 @ hashBuf hb2,
                                      nodeStack := nodeStack hb2 @ [NilNode],
                                      dataLenStack := dataLenStack hb2 @ [dataLen]\<rparr>)))))"

text \<open>
  \<open>accountLeaf\<close>. The field-set bits 4 and 8 say whether a storage root and a code hash
  are on the stack. The first component of each intermediate triple is the updated working
  account, the second the node found, the third the number of slots read so far.
\<close>

definition accountLeaf_root ::
  "HashBuilder \<Rightarrow> 32 word \<Rightarrow> error + (Account \<times> node \<times> nat)" where
  "accountLeaf_root hb fieldSet =
     (if fieldSet AND 4 \<noteq> 0 then
        (if length (hashStack hb) < HashLength then Inl Panic
         else
           (let a = (acc hb)\<lparr>Root := drop (length (hashStack hb) - HashLength) (hashStack hb)\<rparr>
            in if Root a \<noteq> EmptyRoot then
                 (if nodeStack hb = [] \<or> dataLenStack hb = [] then Inl Panic
                  else
                    (let root = last (nodeStack hb); l = last (dataLenStack hb)
                     in Inr (a, if root = NilNode then hashNode (Root a) l else root, 1)))
               else Inr (a, NilNode, 1)))
      else Inr (acc hb, NilNode, 0))"

definition accountLeaf_code ::
  "HashBuilder \<Rightarrow> Account \<Rightarrow> nat \<Rightarrow> 32 word \<Rightarrow> error + (Account \<times> bytes option \<times> nat)" where
  "accountLeaf_code hb a popped fieldSet =
     (if fieldSet AND 8 \<noteq> 0 then
        (if length (hashStack hb) < popped * hashStackStride + HashLength then Inl Panic
         else
           (let hs = hashStack hb;
                a' = a\<lparr>CodeHash := take HashLength
                        (drop (length hs - popped * hashStackStride - HashLength) hs)\<rparr>
            in if CodeHash a' \<noteq> EmptyCodeHash then
                 (if length (nodeStack hb) < popped + 1 then Inl Panic
                  else
                    (case nodeStack hb ! (length (nodeStack hb) - popped - 1) of
                       NilNode \<Rightarrow> Inr (a', None, popped + 1)
                     | codeNode c \<Rightarrow> Inr (a', c, popped + 1)
                     | _ \<Rightarrow> Inl ErrWrongNodeType))
               else Inr (a', None, popped + 1)))
      else Inr (a, None, popped))"

definition accountLeaf ::
  "AccountEnv \<Rightarrow> HashBuilder \<Rightarrow> int \<Rightarrow> bytes \<Rightarrow> 256 word \<Rightarrow> 64 word \<Rightarrow> 64 word \<Rightarrow> 32 word \<Rightarrow>
   error + HashBuilder" where
  "accountLeaf env hb len keyHex balance nonce incarnation fieldSet =
     (if len < 0 \<or> nat len > length keyHex then Inl Panic
      else
        (let key = drop (length keyHex - nat len) keyHex;
             hb0 = hb\<lparr>acc := (acc hb)\<lparr>Root := EmptyRoot, CodeHash := EmptyCodeHash,
                                       Nonce := nonce, Balance := balance,
                                       Initialised := True, Incarnation := incarnation\<rparr>\<rparr>
         in case accountLeaf_root hb0 fieldSet of
              Inl e \<Rightarrow> Inl e
            | Inr (a1, root, popped1) \<Rightarrow>
                (case accountLeaf_code hb0 a1 popped1 fieldSet of
                   Inl e \<Rightarrow> Inl e
                 | Inr (a2, accountCode, popped) \<Rightarrow>
                     (let hb1 = hb0\<lparr>acc := a2\<rparr>;
                          accountCodeSize =
                            (case accountCode of
                               Some c \<Rightarrow> if CodeHash a2 \<noteq> EmptyCodeHash then int (length c)
                                         else codeSizeUncached env
                             | None \<Rightarrow> codeSizeUncached env);
                          a = accountNode a2 root True accountCode accountCodeSize;
                          s = shortNode key a (replicate 32 0) 0 0
                      in case accountLeafHashWithKey env hb1 key popped of
                           Inl e \<Rightarrow> Inl e
                         | Inr hb2 \<Rightarrow>
                             (let hs = hashStack hb2;
                                  s' = setRef s (drop (length hs - HashLength) hs) 32
                                              (last (dataLenStack hb2))
                              in Inr (hb2\<lparr>nodeStack :=
                                        (nodeStack hb2)[length (nodeStack hb2) - 1 := s']\<rparr>))))))"

text \<open>
  \<open>extensionHash\<close> always hashes: the child is the whole 33-byte slot on top of the hash
  stack, which is then overwritten in place by the new hash.
\<close>

fun is_fullNode :: "node \<Rightarrow> bool" where
  "is_fullNode (fullNode c d l w) = True"
| "is_fullNode n = False"

definition extensionHash :: "HashBuilder \<Rightarrow> bytes \<Rightarrow> error + HashBuilder" where
  "extensionHash hb key =
     (if length (hashStack hb) < hashStackStride then Inl Panic
      else
        (let hs = hashStack hb;
             branchHash = drop (length hs - hashStackStride) hs;
             (keyPrefix, kl, compactLen, compact0, ni) = compactKey key;
             totalLen = length keyPrefix + kl + 33;
             lenPrefix = GenerateStructLen totalLen;
             absorbed = lenPrefix @ keyPrefix @ [compact0] @
                        compactTail key ni (compactLen - 1) @ take (HashLength + 1) branchHash;
             hb1 = hb\<lparr>hashStack := take (length hs - hashStackStride) hs @
                                    (0x80 + of_nat HashLength) # keccak256 absorbed\<rparr>
         in if dataLenStack hb1 = [] then Inl Panic
            else
              (let dl = dataLenStack hb1;
                   hb2 = hb1\<lparr>dataLenStack :=
                            dl[length dl - 1 := 1 + of_nat (length key) div 2 + last dl]\<rparr>
               in if nodeStack hb2 = [] then Inl Panic
                  else if is_fullNode (last (nodeStack hb2)) then Inl ErrExtensionOnNode
                  else Inr hb2)))"

definition extension :: "HashBuilder \<Rightarrow> bytes \<Rightarrow> error + HashBuilder" where
  "extension hb key =
     (if nodeStack hb = [] then Inl Panic
      else
        (let nd = last (nodeStack hb);
             mk = (case nd of
                     NilNode \<Rightarrow>
                       (if length (hashStack hb) < HashLength \<or> dataLenStack hb = [] then Inl Panic
                        else Inr (shortNode key
                                    (hashNode (drop (length (hashStack hb) - HashLength) (hashStack hb))
                                              (last (dataLenStack hb)))
                                    (replicate 32 0) 0 0))
                   | fullNode c d l w \<Rightarrow> Inr (shortNode key nd (replicate 32 0) 0 0)
                   | _ \<Rightarrow> Inl ErrWrongValType)
         in case mk of
              Inl e \<Rightarrow> Inl e
            | Inr s \<Rightarrow>
                (let top = length (nodeStack hb) - 1;
                     hb0 = hb\<lparr>nodeStack := (nodeStack hb)[top := s]\<rparr>
                 in case extensionHash hb0 key of
                      Inl e \<Rightarrow> Inl e
                    | Inr hb1 \<Rightarrow>
                        (let hs = hashStack hb1;
                             s' = setRef s (drop (length hs - HashLength) hs) 32
                                         (last (dataLenStack hb1))
                         in Inr (hb1\<lparr>nodeStack := (nodeStack hb1)[top := s']\<rparr>)))))"

text \<open>
  \<open>BRANCH\<close>. The test \<open>((uint16(1) << digit) & set) != 0\<close>; for \<open>digit = 16\<close> the
  shift leaves 0 in a \<open>uint16\<close>. \<open>bits.OnesCount16\<close> counts the set bits.
\<close>

definition bit_set :: "16 word \<Rightarrow> nat \<Rightarrow> bool" where
  "bit_set s digit \<longleftrightarrow> (push_bit digit (1 :: 16 word)) AND s \<noteq> 0"

definition digits16 :: "nat list" where
  "digits16 = [0, 1, 2, 3, 4, 5, 6, 7, 8, 9, 10, 11, 12, 13, 14, 15]"

definition OnesCount16 :: "16 word \<Rightarrow> nat" where
  "OnesCount16 s = length (filter (bit_set s) digits16)"

text \<open>
  The loop of \<open>branch\<close> that fills \<open>f.Children\<close>: the last argument is the counter
  \<open>i\<close>, which stays below the number of set bits.
\<close>

fun branch_children ::
  "16 word \<Rightarrow> node list \<Rightarrow> bytes \<Rightarrow> 64 word list \<Rightarrow> nat list \<Rightarrow> nat \<Rightarrow> node list" where
  "branch_children s nodes hashes dataLengths [] i = []"
| "branch_children s nodes hashes dataLengths (digit # ds) i =
     (if bit_set s digit then
        (if nodes ! i = NilNode
         then hashNode (take HashLength (drop (hashStackStride * i + 1) hashes)) (dataLengths ! i)
         else nodes ! i) # branch_children s nodes hashes dataLengths ds (i + 1)
      else NilNode # branch_children s nodes hashes dataLengths ds i)"

text \<open>
  The first loop of \<open>branchHash\<close>: the size of the payload. The subtraction
  \<open>hashes[...] - rlp.EmptyListCode\<close> is on bytes, and \<open>rlp.EmptyListCode\<close> is \<open>0xc0\<close>.
\<close>

fun branchHash_size :: "16 word \<Rightarrow> bytes \<Rightarrow> nat list \<Rightarrow> nat \<Rightarrow> nat \<Rightarrow> nat" where
  "branchHash_size s hashes [] i totalSize = totalSize"
| "branchHash_size s hashes (digit # ds) i totalSize =
     (if bit_set s digit then
        branchHash_size s hashes ds (i + 1)
          (if hashes ! (hashStackStride * i) = 0x80 + of_nat HashLength
           then totalSize + HashLength
           else totalSize + unat (hashes ! (hashStackStride * i) - 0xc0))
      else branchHash_size s hashes ds i totalSize)"

text \<open>
  What the second loop of \<open>branchHash\<close> writes for child \<open>i\<close>: the whole slot of a
  hashed child; for an embedded child, with the \<open>int\<close> \<open>size\<close> being the first byte
  minus \<open>0xc0\<close>, the slice \<open>hashes[stride*i : stride*i+size+1]\<close>. The slice panics when
  \<open>size + 1\<close> is negative; beyond the end of \<open>hashes\<close> it panics as well unless the
  backing array happens to be longer, a case the model counts as a panic. Both tests are
  written on naturals: \<open>size + 1\<close> is \<open>unat p + 1 - 0xc0\<close> where that is not negative.
\<close>

definition branchHash_item :: "bytes \<Rightarrow> nat \<Rightarrow> error + bytes" where
  "branchHash_item hashes i =
     (let p = hashes ! (hashStackStride * i)
      in if p = 0x80 + of_nat HashLength
         then Inr (take hashStackStride (drop (hashStackStride * i) hashes))
         else if unat p + 1 < 0xc0 \<or>
                 hashStackStride * i + (unat p + 1 - 0xc0) > length hashes
         then Inl Panic
         else Inr (take (unat p + 1 - 0xc0) (drop (hashStackStride * i) hashes)))"

text \<open>
  The second loop, over the digits 0 to 16: the list of the byte strings handed to
  \<open>sha.Write\<close>, in order. \<open>rlp.EmptyStringCode\<close> is \<open>0x80\<close>.
\<close>

fun branchHash_items :: "16 word \<Rightarrow> bytes \<Rightarrow> nat list \<Rightarrow> nat \<Rightarrow> error + bytes list" where
  "branchHash_items s hashes [] i = Inr []"
| "branchHash_items s hashes (digit # ds) i =
     (if bit_set s digit then
        (case branchHash_item hashes i of
           Inl e \<Rightarrow> Inl e
         | Inr it \<Rightarrow>
             (case branchHash_items s hashes ds (i + 1) of
                Inl e \<Rightarrow> Inl e
              | Inr rest \<Rightarrow> Inr (it # rest)))
      else
        (case branchHash_items s hashes ds i of
           Inl e \<Rightarrow> Inl e
         | Inr rest \<Rightarrow> Inr ([0x80] # rest)))"

text \<open>
  \<open>branchHash\<close>. With no bit set the reslice \<open>hashStack[:len-0+stride]\<close> reaches beyond
  the length of the stack; if the capacity allows it, the run still ends in a panic, at the
  store \<open>dataLenStack[len(dataLenStack)-0] = dataLen\<close>, which is out of range for every
  slice. The model reports the panic at the reslice.
\<close>

definition branchHash :: "HashBuilder \<Rightarrow> 16 word \<Rightarrow> error + HashBuilder" where
  "branchHash hb s =
     (let digits = OnesCount16 s
      in if length (hashStack hb) < hashStackStride * digits
         then Inl (ErrHashStack (length (hashStack hb)) (hashStackStride * digits))
         else
           (let hs = hashStack hb;
                hashes = drop (length hs - hashStackStride * digits) hs;
                totalSize = branchHash_size s hashes digits16 0 17;
                lenPrefix = GenerateStructLen totalSize
            in case branchHash_items s hashes (digits16 @ [16]) 0 of
                 Inl e \<Rightarrow> Inl e
               | Inr items \<Rightarrow>
                   (if digits = 0 then Inl Panic
                    else
                      (let hb1 = hb\<lparr>hashStack :=
                                  take (length hs - hashStackStride * digits) hs @
                                  (0x80 + of_nat HashLength) # keccak256 (lenPrefix @ concat items)\<rparr>;
                           dl = dataLenStack hb1
                       in if length dl < digits then Inl Panic
                          else
                            (let dataLen = 1 + 1 + sum_list (drop (length dl - digits) dl);
                                 hb2 = hb1\<lparr>dataLenStack := take (length dl - digits) dl @ [dataLen]\<rparr>
                             in if hashStackStride * length (nodeStack hb2) > length (hashStack hb2)
                                then
                                  (if length (nodeStack hb2) + 1 < digits \<or>
                                      length (nodeStack hb2) + 1 = digits
                                   then Inl Panic
                                   else Inr (hb2\<lparr>nodeStack :=
                                          take (length (nodeStack hb2) - digits) (nodeStack hb2) @
                                          [NilNode]\<rparr>))
                                else Inr hb2)))))"

text \<open>
  \<open>branch\<close>. With no bit set the reslice \<open>nodeStack[:len-0+1]\<close> reaches beyond the
  length of the stack and, as in \<open>branchHash\<close>, the call ends in a panic whatever the
  capacity. The final stores go through the pointer \<open>f\<close>; they show on the stack unless
  \<open>branchHash\<close> has replaced the top by nil.
\<close>

definition branch :: "HashBuilder \<Rightarrow> 16 word \<Rightarrow> error + HashBuilder" where
  "branch hb s =
     (let digits = OnesCount16 s
      in if length (nodeStack hb) < digits
         then Inl (ErrNodeStack (length (nodeStack hb)) digits)
         else if length (hashStack hb) < hashStackStride * digits \<or>
                 length (dataLenStack hb) < digits
         then Inl Panic
         else
           (let nodes = drop (length (nodeStack hb) - digits) (nodeStack hb);
                hashes = drop (length (hashStack hb) - hashStackStride * digits) (hashStack hb);
                dataLengths = drop (length (dataLenStack hb) - digits) (dataLenStack hb);
                f = fullNode (branch_children s nodes hashes dataLengths digits16 0 @ [NilNode])
                             (replicate 32 0) 0 0
            in if digits = 0 then Inl Panic
               else
                 (let hb0 = hb\<lparr>nodeStack :=
                             take (length (nodeStack hb) - digits) (nodeStack hb) @ [f]\<rparr>
                  in case branchHash hb0 s of
                       Inl e \<Rightarrow> Inl e
                     | Inr hb1 \<Rightarrow>
                         (let hs = hashStack hb1;
                              top = length (nodeStack hb1) - 1
                          in Inr (hb1\<lparr>nodeStack := (nodeStack hb1)
                                    [top := setRef (nodeStack hb1 ! top)
                                              (drop (length hs - HashLength) hs) 32
                                              (last (dataLenStack hb1))]\<rparr>)))))"

definition hash :: "HashBuilder \<Rightarrow> bytes \<Rightarrow> 64 word \<Rightarrow> error + HashBuilder" where
  "hash hb h dataLen =
     Inr (hb\<lparr>hashStack := (hashStack hb @ [0x80 + of_nat HashLength]) @ h,
             nodeStack := nodeStack hb @ [NilNode],
             dataLenStack := dataLenStack hb @ [dataLen]\<rparr>)"

text \<open>
  \<open>code\<close>: the argument slice may be nil (\<open>None\<close>); \<open>common.CopyBytes\<close> keeps nil.
\<close>

definition code :: "HashBuilder \<Rightarrow> bytes option \<Rightarrow> error + HashBuilder" where
  "code hb c =
     (let bs = (case c of None \<Rightarrow> [] | Some b \<Rightarrow> b)
      in Inr (hb\<lparr>nodeStack := nodeStack hb @ [codeNode c],
                 dataLenStack := dataLenStack hb @ [1 + of_nat (length bs)],
                 hashStack := hashStack hb @ (0x80 + of_nat HashLength) # keccak256 bs\<rparr>))"

definition emptyRoot :: "HashBuilder \<Rightarrow> HashBuilder" where
  "emptyRoot hb =
     hb\<lparr>nodeStack := nodeStack hb @ [NilNode],
        dataLenStack := dataLenStack hb @ [0],
        hashStack := hashStack hb @ (0x80 + of_nat HashLength) # EmptyRoot\<rparr>"

definition hasRoot :: "HashBuilder \<Rightarrow> bool" where
  "hasRoot hb \<longleftrightarrow> length (nodeStack hb) > 0"

text \<open>
  \<open>rootHash\<close> copies into a 32-byte array the last 32 bytes of the hash stack, which
  is what follows the first byte of the top slot; the slice panics on a hash stack shorter
  than 32 bytes. \<open>RootHash\<close> is given with the
  builder it leaves behind.
\<close>

definition rootHash :: "HashBuilder \<Rightarrow> error + bytes" where
  "rootHash hb =
     (if length (hashStack hb) + 1 < hashStackStride then Inl Panic
      else Inr (drop (length (hashStack hb) + 1 - hashStackStride) (hashStack hb)))"

definition RootHash :: "HashBuilder \<Rightarrow> (error + bytes) \<times> HashBuilder" where
  "RootHash hb = (if \<not> hasRoot hb then (Inl ErrNoRoot, hb) else (rootHash hb, hb))"

text \<open>The opcodes as one type, and their dispatch.\<close>

datatype opcode =
    LEAF int bytes RlpSerializable
  | ACCOUNT_LEAF int bytes "256 word" "64 word" "64 word" "32 word"
  | EXTENSION bytes
  | BRANCH "16 word"
  | HASH bytes "64 word"
  | CODE "bytes option"
  | EMPTY_ROOT

fun exec :: "AccountEnv \<Rightarrow> HashBuilder \<Rightarrow> opcode \<Rightarrow> error + HashBuilder" where
  "exec env hb (LEAF len keyHex val) = leaf hb len keyHex val"
| "exec env hb (ACCOUNT_LEAF len keyHex balance nonce incarnation fieldSet) =
     accountLeaf env hb len keyHex balance nonce incarnation fieldSet"
| "exec env hb (EXTENSION key) = extension hb key"
| "exec env hb (BRANCH s) = branch hb s"
| "exec env hb (HASH h dataLen) = hash hb h dataLen"
| "exec env hb (CODE c) = code hb c"
| "exec env hb EMPTY_ROOT = Inr (emptyRoot hb)"

section \<open>Predicates and auxiliary definitions of the statements\<close>

text \<open>
  The three stacks are synchronized: every logical slot is 33 bytes of the hash stack, one
  node and one witness length.
\<close>

definition stacks_synced :: "HashBuilder \<Rightarrow> bool" where
  "stacks_synced hb \<longleftrightarrow>
     length (hashStack hb) = hashStackStride * length (dataLenStack hb) \<and>
     length (nodeStack hb) = length (dataLenStack hb)"

text \<open>
  The sizes that Go's array types \<open>[33]byte\<close> and \<open>[128]byte\<close> fix for the two
  buffers.
\<close>

definition arrays_ok :: "HashBuilder \<Rightarrow> bool" where
  "arrays_ok hb \<longleftrightarrow> length (hashBuf hb) = 33 \<and> length (valBuf hb) = 128"

text \<open>
  The \<open>HASH\<close> opcode carries a hash, which is 32 bytes (section 3); the source takes it
  as a slice.
\<close>

fun opcode_ok :: "opcode \<Rightarrow> bool" where
  "opcode_ok (HASH h dataLen) = (length h = HashLength)"
| "opcode_ok _ = True"

text \<open>The number of slots \<open>ACCOUNT_LEAF\<close> pops, from the field set.\<close>

definition acc_popped :: "32 word \<Rightarrow> nat" where
  "acc_popped fieldSet =
     (if fieldSet AND 4 \<noteq> 0 then 1 else 0) + (if fieldSet AND 8 \<noteq> 0 then 1 else 0)"

text \<open>An instance of the account methods, for concrete runs.\<close>

definition demoEnv :: AccountEnv where
  "demoEnv = \<lparr>EncodingLengthForHashing = (\<lambda>a. 1), EncodeForHashing = (\<lambda>a. [0xc0]),
              EncodingLengthForStorage = (\<lambda>a. 1), codeSizeUncached = -1\<rparr>"

text \<open>A value, a hash and a builder holding two hash slots, for concrete runs.\<close>

definition demoVal :: RlpSerializable where
  "demoVal = \<lparr>RawBytes = [1, 2, 3], DoubleRLPLen = 4, ToDoubleRLP = Inr [0x83, 1, 2, 3]\<rparr>"

definition demoHash :: bytes where
  "demoHash = replicate 32 7"

definition demoTwo :: HashBuilder where
  "demoTwo = projr (hash (projr (hash NewHashBuilder demoHash 3)) demoHash 4)"

text \<open>
  The \<open>i\<close>-th 33-byte slot of a run of slots; the first bytes a slot may have (\<open>0xa0\<close>
  before a hash, or the header of an embedded list of at most 32 bytes); and a child as its
  parent's RLP holds it: the 33 bytes of a hash reference, or the embedded RLP, whose
  length its header byte gives.
\<close>

definition slot_at :: "bytes \<Rightarrow> nat \<Rightarrow> bytes" where
  "slot_at hashes i = take hashStackStride (drop (hashStackStride * i) hashes)"

definition slot_ok :: "bytes \<Rightarrow> bool" where
  "slot_ok slot \<longleftrightarrow> slot ! 0 = 0xa0 \<or> (0xc0 \<le> slot ! 0 \<and> slot ! 0 \<le> 0xe0)"

definition child_rlp :: "bytes \<Rightarrow> bytes" where
  "child_rlp slot = (if slot ! 0 = 0xa0 then slot else take (unat (slot ! 0) - 0xc0 + 1) slot)"

text \<open>
  The 17 elements of a branch as the specification describes them: going through the
  digits, a set bit takes the next slot, an unset bit is the empty string \<open>0x80\<close>.
\<close>

fun items_spec :: "16 word \<Rightarrow> bytes \<Rightarrow> nat list \<Rightarrow> nat \<Rightarrow> bytes list" where
  "items_spec s hashes [] i = []"
| "items_spec s hashes (d # ds) i =
     (if bit s d then child_rlp (slot_at hashes i) # items_spec s hashes ds (i + 1)
      else [0x80] # items_spec s hashes ds i)"

definition branch_items :: "16 word \<Rightarrow> bytes \<Rightarrow> bytes list" where
  "branch_items s hashes = items_spec s hashes [0..<17] 0"

text \<open>
  The bytes \<open>completeLeafHash\<close> hands to its writer, in one string.
\<close>

definition leaf_stream :: "bytes \<Rightarrow> nat \<Rightarrow> nat \<Rightarrow> bytes \<Rightarrow> byte \<Rightarrow> nat \<Rightarrow> nat \<Rightarrow> bytes \<Rightarrow> bytes" where
  "leaf_stream kp kl cl key c0 ni dlen v =
     GenerateStructLen (length kp + kl + dlen) @ kp @ [c0] @ compactTail key ni (cl - 1) @ v"

text \<open>
  The serialized RLP of the short node \<open>[compact(key, term = true), value]\<close>, following
  the specification; \<open>v\<close> is the value as it serializes itself into the node.
\<close>

definition leaf_rlp :: "bytes \<Rightarrow> bytes \<Rightarrow> bytes" where
  "leaf_rlp nibbles v = rlp_list [rlp_string (compact_encode nibbles True), v]"

definition demoLongVal :: RlpSerializable where
  "demoLongVal = \<lparr>RawBytes = demoHash, DoubleRLPLen = 33, ToDoubleRLP = Inr (0xa0 # demoHash)\<rparr>"

text \<open>Two writers of one kind, over buffers of one length; used only in the proofs.\<close>

fun writer_same_kind :: "writer \<Rightarrow> writer \<Rightarrow> bool" where
  "writer_same_kind (ShaWriter a) (ShaWriter b) = True"
| "writer_same_kind (BufWriter d p) (BufWriter d' p') = (length d' = length d)"
| "writer_same_kind _ _ = False"

text \<open>A front-to-back description of the increment, used only in the proofs.\<close>

fun incr :: "bytes \<Rightarrow> bytes option" where
  "incr [] = None"
| "incr (x # xs) =
     (case incr xs of
        Some t \<Rightarrow> Some (x # t)
      | None \<Rightarrow> if x \<noteq> 255 then Some ((x + 1) # replicate (length xs) 0) else None)"

section \<open>Account encodings of the state package (part_002)\<close>

text \<open>
  Modelled from the spec: the \<open>rlp\<close> package (\<open>rlp.EncodeToBytes\<close>, \<open>rlp.DecodeBytes\<close>) is
  declared outside the given sources. Section 4.A gives the encoding: a single byte below
  \<open>0x80\<close> stands for itself, a string of up to 55 bytes has the header \<open>0x80 + len\<close>, a
  longer one \<open>0xb7 + len(len)\<close> followed by the big-endian length, a list \<open>0xc0 + len\<close> or
  \<open>0xf7 + len(len)\<close>. The decoder accepts canonical encodings only. \<open>be_nat\<close> reads a
  big-endian number.
\<close>

fun be_nat :: "bytes \<Rightarrow> nat" where
  "be_nat bs = foldl (\<lambda>n b. n * 256 + unat b) 0 bs"

datatype rlp_kind = RlpString | RlpList

text \<open>
  The errors of decoding. \<open>encodingToAccount\<close> tells one message from all others: "input
  list has too many elements".
\<close>

datatype rlp_error = ErrTooManyElements | ErrRlp

text \<open>
  Modelled from the spec: splitting the first item off an input (section 4.A), giving its
  kind, its payload and the rest of the input. A length that is not minimal is refused.
\<close>

definition rlp_split :: "bytes \<Rightarrow> rlp_error + (rlp_kind \<times> bytes \<times> bytes)" where
  "rlp_split inp =
     (case inp of
        [] \<Rightarrow> Inl ErrRlp
      | b0 # rest \<Rightarrow>
          (let t = unat b0 in
           if t < 0x80 then Inr (RlpString, [b0], rest)
           else if t < 0xb8 then
             (let l = t - 0x80 in
              if length rest < l then Inl ErrRlp
              else if l = 1 \<and> hd rest < 0x80 then Inl ErrRlp
              else Inr (RlpString, take l rest, drop l rest))
           else if t < 0xc0 then
             (let ll = t - 0xb7 in
              if length rest < ll then Inl ErrRlp
              else
                (let lb = take ll rest; l = be_nat lb in
                 if hd lb = 0 \<or> l < 56 \<or> length rest - ll < l then Inl ErrRlp
                 else Inr (RlpString, take l (drop ll rest), drop (ll + l) rest)))
           else if t < 0xf8 then
             (let l = t - 0xc0 in
              if length rest < l then Inl ErrRlp
              else Inr (RlpList, take l rest, drop l rest))
           else
             (let ll = t - 0xf7 in
              if length rest < ll then Inl ErrRlp
              else
                (let lb = take ll rest; l = be_nat lb in
                 if hd lb = 0 \<or> l < 56 \<or> length rest - ll < l then Inl ErrRlp
                 else Inr (RlpList, take l (drop ll rest), drop (ll + l) rest)))))"

text \<open>
  Modelled from the spec: the fields of the decoded structs. A \<open>uint64\<close> is a string of at
  most 8 bytes without a leading zero, a \<open>*big.Int\<close> a string without a leading zero, a
  \<open>common.Hash\<close> a string of exactly 32 bytes, a \<open>[]byte\<close> any string. The whole input of
  \<open>rlp.DecodeBytes\<close> is one list.
\<close>

definition take_string :: "bytes \<Rightarrow> rlp_error + (bytes \<times> bytes)" where
  "take_string inp =
     (case rlp_split inp of
        Inr (RlpString, p, rest) \<Rightarrow> Inr (p, rest)
      | _ \<Rightarrow> Inl ErrRlp)"

definition take_list :: "bytes \<Rightarrow> rlp_error + bytes" where
  "take_list inp =
     (case rlp_split inp of
        Inr (RlpList, p, rest) \<Rightarrow> if rest = [] then Inr p else Inl ErrRlp
      | _ \<Rightarrow> Inl ErrRlp)"

definition field_uint64 :: "bytes \<Rightarrow> rlp_error + (64 word \<times> bytes)" where
  "field_uint64 inp =
     (case take_string inp of
        Inl e \<Rightarrow> Inl e
      | Inr (p, rest) \<Rightarrow>
          if length p > 8 \<or> (p \<noteq> [] \<and> hd p = 0) then Inl ErrRlp
          else Inr (of_nat (be_nat p), rest))"

definition field_big :: "bytes \<Rightarrow> rlp_error + (nat \<times> bytes)" where
  "field_big inp =
     (case take_string inp of
        Inl e \<Rightarrow> Inl e
      | Inr (p, rest) \<Rightarrow>
          if p \<noteq> [] \<and> hd p = 0 then Inl ErrRlp else Inr (be_nat p, rest))"

definition field_hash :: "bytes \<Rightarrow> rlp_error + (bytes \<times> bytes)" where
  "field_hash inp =
     (case take_string inp of
        Inl e \<Rightarrow> Inl e
      | Inr (p, rest) \<Rightarrow> if length p \<noteq> 32 then Inl ErrRlp else Inr (p, rest))"

definition field_bytes :: "bytes \<Rightarrow> rlp_error + (bytes \<times> bytes)" where
  "field_bytes inp = take_string inp"

text \<open>
  Modelled from the spec: numbers are encoded as the string of their big-endian bytes
  without leading zeros (section 4.A); zero is the empty string.
\<close>

definition enc_uint64 :: "64 word \<Rightarrow> bytes" where
  "enc_uint64 n = rlp_string (be_bytes (unat n))"

definition enc_big :: "nat \<Rightarrow> bytes" where
  "enc_big n = rlp_string (be_bytes n)"

text \<open>
  \<open>accounts.Account\<close>, the record that \<open>accountToEncoding\<close> and \<open>encodingToAccount\<close> work on.
  Modelled from the spec: the type is declared outside the given sources; its fields are
  those the two functions read and write (section 6: nonce, balance, root, code hash and
  the optional storage size). Pointers and slices that may be nil are options.
\<close>

record StateAccount =
  sNonce :: "64 word"
  sBalance :: "nat option"
  sRoot :: bytes
  sCodeHash :: "bytes option"
  sStorageSize :: "64 word option"

text \<open>
  Modelled from the spec: \<open>emptyCodeHash\<close> of the state package is declared outside the
  given sources; it is the Keccak-256 hash of the empty code (section 3).
\<close>

definition state_emptyCodeHash :: bytes where
  "state_emptyCodeHash = keccak256 []"

text \<open>
  Modelled from the spec: \<open>rlp.DecodeBytes\<close> into the three structs, \<open>accounts.ExtAccount\<close>
  (nonce, balance), \<open>state.Account\<close> (part_002, lines 663-668: nonce, balance, root, code
  hash) and \<open>accounts.Account\<close> (the same with the storage size). Input left over after
  the last field is the error "too many elements".
\<close>

definition decode_ExtAccount :: "bytes \<Rightarrow> rlp_error + (64 word \<times> nat)" where
  "decode_ExtAccount enc =
     (case take_list enc of
        Inl e \<Rightarrow> Inl e
      | Inr p \<Rightarrow>
          (case field_uint64 p of
             Inl e \<Rightarrow> Inl e
           | Inr (nonce, r1) \<Rightarrow>
               (case field_big r1 of
                  Inl e \<Rightarrow> Inl e
                | Inr (balance, r2) \<Rightarrow>
                    if r2 = [] then Inr (nonce, balance) else Inl ErrTooManyElements)))"

definition decode_fields4 :: "bytes \<Rightarrow> rlp_error + ((64 word \<times> nat \<times> bytes \<times> bytes) \<times> bytes)" where
  "decode_fields4 p =
     (case field_uint64 p of
        Inl e \<Rightarrow> Inl e
      | Inr (nonce, r1) \<Rightarrow>
          (case field_big r1 of
             Inl e \<Rightarrow> Inl e
           | Inr (balance, r2) \<Rightarrow>
               (case field_hash r2 of
                  Inl e \<Rightarrow> Inl e
                | Inr (root, r3) \<Rightarrow>
                    (case field_bytes r3 of
                       Inl e \<Rightarrow> Inl e
                     | Inr (codeHash, r4) \<Rightarrow> Inr ((nonce, balance, root, codeHash), r4)))))"

definition decode_Account :: "bytes \<Rightarrow> rlp_error + (64 word \<times> nat \<times> bytes \<times> bytes)" where
  "decode_Account enc =
     (case take_list enc of
        Inl e \<Rightarrow> Inl e
      | Inr p \<Rightarrow>
          (case decode_fields4 p of
             Inl e \<Rightarrow> Inl e
           | Inr (fs, r4) \<Rightarrow> if r4 = [] then Inr fs else Inl ErrTooManyElements))"

definition decode_accounts_Account :: "bytes \<Rightarrow> rlp_error + StateAccount" where
  "decode_accounts_Account enc =
     (case take_list enc of
        Inl e \<Rightarrow> Inl e
      | Inr p \<Rightarrow>
          (case decode_fields4 p of
             Inl e \<Rightarrow> Inl e
           | Inr ((nonce, balance, root, codeHash), r4) \<Rightarrow>
               (case field_uint64 r4 of
                  Inl e \<Rightarrow> Inl e
                | Inr (ssize, r5) \<Rightarrow>
                    if r5 = []
                    then Inr \<lparr>sNonce = nonce, sBalance = Some balance, sRoot = root,
                              sCodeHash = Some codeHash, sStorageSize = Some ssize\<rparr>
                    else Inl ErrTooManyElements)))"

text \<open>
  \<open>accountToEncoding\<close> (part_002, lines 670-724). \<open>rlp.EncodeToBytes\<close> of a struct is the
  list of its fields; it does not fail on these structs.
\<close>

definition accountToEncoding :: "StateAccount \<Rightarrow> rlp_error + bytes" where
  "accountToEncoding account =
     (if (case sCodeHash account of None \<Rightarrow> True | Some h \<Rightarrow> h = state_emptyCodeHash) \<and>
         (sRoot account = state_emptyRoot \<or> sRoot account = replicate 32 0)
      then
        (if (case sBalance account of None \<Rightarrow> True | Some b \<Rightarrow> b = 0) \<and> sNonce account = 0
         then Inr [192]
         else Inr (rlp_list [enc_uint64 (sNonce account),
                             enc_big (case sBalance account of None \<Rightarrow> 0 | Some b \<Rightarrow> b)]))
      else
        (let balance = (case sBalance account of None \<Rightarrow> 0 | Some b \<Rightarrow> b);
             codeHash = (case sCodeHash account of None \<Rightarrow> state_emptyCodeHash | Some h \<Rightarrow> h);
             root = (if sRoot account = replicate 32 0 then state_emptyRoot else sRoot account)
         in case sStorageSize account of
              None \<Rightarrow>
                Inr (rlp_list [enc_uint64 (sNonce account), enc_big balance, rlp_string root,
                               rlp_string codeHash])
            | Some ssize \<Rightarrow>
                if ssize = 0
                then Inr (rlp_list [enc_uint64 (sNonce account), enc_big balance,
                                    rlp_string root, rlp_string codeHash])
                else Inr (rlp_list [enc_uint64 (sNonce account), enc_big balance,
                                    rlp_string root, rlp_string codeHash, enc_uint64 ssize])))"

text \<open>
  \<open>encodingToAccount\<close> (part_002, lines 726-774). The result \<open>nil, nil\<close> is \<open>Inr None\<close>.
\<close>

definition encodingToAccount :: "bytes \<Rightarrow> rlp_error + StateAccount option" where
  "encodingToAccount enc =
     (if length enc = 0 then Inr None
      else if length enc = 1 then
        Inr (Some \<lparr>sNonce = 0, sBalance = Some 0, sRoot = state_emptyRoot,
                   sCodeHash = Some state_emptyCodeHash, sStorageSize = None\<rparr>)
      else if length enc < 60 then
        (case decode_ExtAccount enc of
           Inl e \<Rightarrow> Inl e
         | Inr (nonce, balance) \<Rightarrow>
             Inr (Some \<lparr>sNonce = nonce, sBalance = Some balance, sRoot = state_emptyRoot,
                        sCodeHash = Some state_emptyCodeHash, sStorageSize = None\<rparr>))
      else
        (case decode_Account enc of
           Inl e \<Rightarrow>
             if e \<noteq> ErrTooManyElements then Inl e
             else (case decode_accounts_Account enc of
                     Inl e' \<Rightarrow> Inl e'
                   | Inr data \<Rightarrow> Inr (Some data))
         | Inr (nonce, balance, root, codeHash) \<Rightarrow>
             Inr (Some \<lparr>sNonce = nonce, sBalance = Some balance, sRoot = root,
                        sCodeHash = Some codeHash, sStorageSize = None\<rparr>)))"

text \<open>
  Accounts in normal form: what \<open>encodingToAccount\<close> can return for an encoding made by
  \<open>accountToEncoding\<close>. The balance is present and fits 256 bits, the root is 32 bytes and
  not the zero hash, the code hash is present and 32 bytes, a storage size is absent or
  non-zero, and absent when there is neither storage nor code.
\<close>

definition account_normal :: "StateAccount \<Rightarrow> bool" where
  "account_normal a \<longleftrightarrow>
     (case sBalance a of None \<Rightarrow> False | Some b \<Rightarrow> b < 2 ^ 256) \<and>
     length (sRoot a) = 32 \<and> sRoot a \<noteq> replicate 32 0 \<and>
     (case sCodeHash a of None \<Rightarrow> False | Some h \<Rightarrow> length h = 32) \<and>
     sStorageSize a \<noteq> Some 0 \<and>
     (if sCodeHash a = Some state_emptyCodeHash \<and> sRoot a = state_emptyRoot
      then sStorageSize a = None else True)"

definition emptyAccount :: StateAccount where
  "emptyAccount = \<lparr>sNonce = 0, sBalance = Some 0, sRoot = state_emptyRoot,
                    sCodeHash = Some state_emptyCodeHash, sStorageSize = None\<rparr>"

definition no_storage_no_code :: "StateAccount \<Rightarrow> bool" where
  "no_storage_no_code a \<longleftrightarrow>
     sCodeHash a = Some state_emptyCodeHash \<and> sRoot a = state_emptyRoot"

text \<open>The full shape: nonce, balance, root, code hash and, when present, the storage size.\<close>

definition full_encoding :: "StateAccount \<Rightarrow> bytes" where
  "full_encoding a =
     rlp_list ([enc_uint64 (sNonce a), enc_big (the (sBalance a)), rlp_string (sRoot a),
                rlp_string (the (sCodeHash a))] @
               (case sStorageSize a of None \<Rightarrow> [] | Some n \<Rightarrow> [enc_uint64 n]))"

text \<open>Accounts for the concrete runs.\<close>

definition zeroRootAccount :: StateAccount where
  "zeroRootAccount = \<lparr>sNonce = 1, sBalance = Some 0, sRoot = replicate 32 0,
                       sCodeHash = None, sStorageSize = None\<rparr>"

definition demoShortAccount :: StateAccount where
  "demoShortAccount = \<lparr>sNonce = 1, sBalance = Some 5, sRoot = state_emptyRoot,
                        sCodeHash = Some state_emptyCodeHash, sStorageSize = None\<rparr>"

definition demoFullAccount :: StateAccount where
  "demoFullAccount = \<lparr>sNonce = 1, sBalance = Some 5, sRoot = replicate 32 1,
                       sCodeHash = Some (replicate 32 2), sStorageSize = Some 3\<rparr>"

section \<open>Buffers of changes and unwinding (state package, part_002)\<close>

text \<open>
  What \<open>UnwindTo\<close> can return: an error of the database, an error of decoding or
  encoding an account, an error of the trie side, or a run-time panic.
\<close>

datatype state_error = ErrDatabase | ErrCodec rlp_error | ErrTries | ErrPanic























































section \<open>Properties of the byte order\<close>

lemma byte_bound: "unat (x::byte) < 256"
  using unsigned_less[of x] by simp

lemma bytes_Compare_lex: "bytes_Compare xs ys = -1 \<longleftrightarrow> (xs, ys) \<in> bytes_lex"
  unfolding bytes_lex_def
  by (induction xs ys rule: bytes_Compare.induct) auto

lemma bytes_Compare_eq: "bytes_Compare xs ys = 0 \<longleftrightarrow> xs = ys"
  by (induction xs ys rule: bytes_Compare.induct) auto

lemma bytes_Compare_gt: "bytes_Compare xs ys = 1 \<longleftrightarrow> (ys, xs) \<in> bytes_lex"
  unfolding bytes_lex_def
  by (induction xs ys rule: bytes_Compare.induct) auto

lemma bytes_Compare_range:
  "bytes_Compare xs ys = -1 \<or> bytes_Compare xs ys = 0 \<or> bytes_Compare xs ys = 1"
  by (induction xs ys rule: bytes_Compare.induct) auto

section \<open>nextSubtree is the successor among strings of one length\<close>

lemma incr_None: "incr xs = None \<longleftrightarrow> (\<forall>b\<in>set xs. b = 255)"
  by (induction xs) (auto split: option.splits)

lemma loop_snoc:
  "nextSubtree_loop (xs @ [b] @ ys) (Suc (length xs)) =
     (if b \<noteq> 255 then Some (xs @ [b + 1] @ ys)
      else nextSubtree_loop (xs @ [0] @ ys) (length xs))"
  by (simp add: nth_append list_update_append)

lemma loop_drop: "n \<le> length r \<Longrightarrow>
  nextSubtree_loop r n = map_option (\<lambda>t. t @ drop n r) (nextSubtree_loop (take n r) n)"
proof (induction n arbitrary: r)
  case 0
  then show ?case by simp
next
  case (Suc n)
  then have n: "n < length r" by simp
  have a: "take (Suc n) r ! n = r ! n" using n by simp
  have b: "take n ((take (Suc n) r)[n := 0]) = take n r" using n by simp
  have c: "take n (r[n := 0]) = take n r" by simp
  have d: "drop n (r[n := 0]) = 0 # drop (Suc n) r" using n
    by (simp add: upd_conv_take_nth_drop)
  have e: "drop n ((take (Suc n) r)[n := 0]) = [0]" using n
    by (simp add: upd_conv_take_nth_drop min_def)
  have f: "r[n := r ! n + 1] = take n r @ (r ! n + 1) # drop (Suc n) r" using n
    by (simp add: upd_conv_take_nth_drop)
  have g: "(take (Suc n) r)[n := r ! n + 1] = take n r @ [r ! n + 1]" using n
    by (simp add: upd_conv_take_nth_drop min_def)
  show ?case
  proof (cases "r ! n = 255")
    case True
    have "nextSubtree_loop r (Suc n) = nextSubtree_loop (r[n := 0]) n" using True by simp
    also have "\<dots> = map_option (\<lambda>t. t @ 0 # drop (Suc n) r) (nextSubtree_loop (take n r) n)"
      using Suc.IH[of "r[n := 0]"] n c d by simp
    finally have l: "nextSubtree_loop r (Suc n) =
       map_option (\<lambda>t. t @ 0 # drop (Suc n) r) (nextSubtree_loop (take n r) n)" .
    have "nextSubtree_loop (take (Suc n) r) (Suc n) =
        nextSubtree_loop ((take (Suc n) r)[n := 0]) n"
      using True a by simp
    also have "\<dots> = map_option (\<lambda>t. t @ [0]) (nextSubtree_loop (take n r) n)"
      using Suc.IH[of "(take (Suc n) r)[n := 0]"] n b e by simp
    finally show ?thesis using l by (simp add: option.map_comp comp_def)
  next
    case False
    then show ?thesis using a f g by simp
  qed
qed

lemma incr_snoc:
  "incr (ys @ [b]) =
     (if b \<noteq> 255 then Some (ys @ [b + 1]) else map_option (\<lambda>t. t @ [0]) (incr ys))"
  by (induction ys) (auto split: option.splits simp: replicate_append_same)

lemma loop_incr: "nextSubtree_loop xs (length xs) = incr xs"
proof (induction xs rule: rev_induct)
  case Nil
  then show ?case by simp
next
  case (snoc b ys)
  have "nextSubtree_loop (ys @ [b]) (Suc (length ys)) =
     (if b \<noteq> 255 then Some (ys @ [b + 1]) else nextSubtree_loop (ys @ [0]) (length ys))"
    using loop_snoc[of ys b "[]"] by simp
  moreover have "nextSubtree_loop (ys @ [0]) (length ys) =
      map_option (\<lambda>t. t @ [0]) (nextSubtree_loop ys (length ys))"
    using loop_drop[of "length ys" "ys @ [0]"] by simp
  ultimately show ?case using snoc.IH by (simp add: incr_snoc)
qed

lemma incr_length: "incr xs = Some r \<Longrightarrow> length r = length xs"
  by (induction xs arbitrary: r) (auto split: option.splits if_splits)

lemma cmp_zeros: "length q = n \<Longrightarrow> bytes_Compare (replicate n 0) q \<le> 0"
proof (induction n arbitrary: q)
  case 0
  then show ?case by simp
next
  case (Suc n)
  then obtain y ys where "q = y # ys" "length ys = n" by (cases q) auto
  then show ?case using Suc.IH[of ys] by (auto simp: word_gt_0)
qed

lemma cmp_ff:
  "\<forall>b\<in>set xs. b = 255 \<Longrightarrow> length q = length xs \<Longrightarrow> bytes_Compare xs q \<noteq> -1"
proof (induction xs arbitrary: q)
  case Nil
  then show ?case by simp
next
  case (Cons x xs)
  then obtain y ys where q: "q = y # ys" "length ys = length xs" by (cases q) auto
  have "\<not> (255::byte) < y" using byte_bound[of y] by (simp add: word_less_nat_alt)
  then show ?case using Cons q by auto
qed

lemma incr_less: "incr xs = Some r \<Longrightarrow> bytes_Compare xs r = -1"
proof (induction xs arbitrary: r)
  case Nil
  then show ?case by simp
next
  case (Cons x xs)
  show ?case
  proof (cases "incr xs")
    case None
    then have "x \<noteq> 255" "r = (x + 1) # replicate (length xs) 0"
      using Cons.prems by (auto split: if_splits)
    moreover have "x < x + 1" using \<open>x \<noteq> 255\<close> byte_bound[of x]
      by (simp add: word_less_nat_alt unat_word_ariths word_unat_eq_iff)
    ultimately show ?thesis by simp
  next
    case (Some t)
    then show ?thesis using Cons by auto
  qed
qed

lemma incr_least:
  "incr xs = Some r \<Longrightarrow> length q = length xs \<Longrightarrow> bytes_Compare xs q = -1 \<Longrightarrow>
   bytes_Compare r q \<le> 0"
proof (induction xs arbitrary: r q)
  case Nil
  then show ?case by simp
next
  case (Cons x xs)
  then obtain y ys where q: "q = y # ys" "length ys = length xs" by (cases q) auto
  show ?case
  proof (cases "incr xs")
    case None
    then have x: "x \<noteq> 255" and r: "r = (x + 1) # replicate (length xs) 0"
      using Cons.prems by (auto split: if_splits)
    have ff: "\<forall>b\<in>set xs. b = 255" using None by (simp add: incr_None)
    have "x < y" using Cons.prems(3) q cmp_ff[OF ff, of ys] by (auto split: if_splits)
    then have "x + 1 \<le> y" using x byte_bound[of x]
      by (simp add: word_less_nat_alt word_le_nat_alt unat_word_ariths word_unat_eq_iff)
    then show ?thesis using r q cmp_zeros[of ys "length xs"] by auto
  next
    case (Some t)
    then have r: "r = x # t" using Cons.prems by simp
    show ?thesis using Cons.prems(3) q r Cons.IH[OF Some, of ys] by (auto split: if_splits)
  qed
qed

text \<open>
  C6. For every byte string \<open>p\<close>, \<open>nextSubtree p\<close> fails exactly when every byte of
  \<open>p\<close> is \<open>0xFF\<close> (the empty string included); otherwise it returns a string of the
  same length that is lexicographically strictly greater than \<open>p\<close> and not greater than
  any other string of that length above \<open>p\<close>. The argument slice is left as it was.
\<close>

theorem nextSubtree_successor:
  "(nextSubtree p = None \<longleftrightarrow> (\<forall>b\<in>set p. b = 255)) \<and>
   (\<forall>r. nextSubtree p = Some r \<longrightarrow>
      length r = length p \<and> (p, r) \<in> bytes_lex \<and>
      (\<forall>q. length q = length p \<and> (p, q) \<in> bytes_lex \<longrightarrow> q = r \<or> (r, q) \<in> bytes_lex)) \<and>
   nextSubtree_call p = (p, nextSubtree p)"
proof -
  have e: "nextSubtree p = incr p" by (simp add: nextSubtree_def loop_incr)
  have c: "nextSubtree_call p = (p, nextSubtree p)"
    by (simp add: nextSubtree_call_def nextSubtree_def)
  show ?thesis unfolding c e
  proof (intro conjI allI impI)
    show "incr p = None \<longleftrightarrow> (\<forall>b\<in>set p. b = 255)" by (rule incr_None)
  next
    fix r assume "incr p = Some r"
    then show "length r = length p" by (rule incr_length)
  next
    fix r assume "incr p = Some r"
    then show "(p, r) \<in> bytes_lex" using incr_less bytes_Compare_lex by blast
  next
    fix r q assume r: "incr p = Some r" and q: "length q = length p \<and> (p, q) \<in> bytes_lex"
    then have "bytes_Compare r q \<le> 0" using incr_least[of p r q] bytes_Compare_lex by simp
    then have "bytes_Compare r q = 0 \<or> bytes_Compare r q = -1"
      using bytes_Compare_range[of r q] by auto
    then show "q = r \<or> (r, q) \<in> bytes_lex"
      using bytes_Compare_eq[of r q] bytes_Compare_lex[of r q] by auto
  next
    show "(p, incr p) = (p, incr p)" by simp
  qed
qed

theorem nextSubtree_successor_witness:
  "nextSubtree [1, 255] = Some [2, 0] \<and> length [2, 0 :: byte] = length [1, 255 :: byte] \<and>
   ([1, 255], [2, 0]) \<in> bytes_lex \<and> ([2, 0], [2, 7]) \<in> bytes_lex \<and>
   nextSubtree [255, 255] = None \<and> nextSubtree_call [1, 255] = ([1, 255], Some [2, 0])"
proof -
  have a: "nextSubtree [1, 255] = Some [2, 0]" by (simp add: nextSubtree_def)
  have b: "([1, 255], [2, 7 :: byte]) \<in> bytes_lex" by (simp add: bytes_lex_def)
  have c: "[2, 7] \<noteq> [2, 0 :: byte]" by simp
  have d: "\<forall>b\<in>set [255, 255 :: byte]. b = 255" by simp
  have m: "length [2, 0 :: byte] = length [1, 255 :: byte] \<and> ([1, 255], [2, 0]) \<in> bytes_lex \<and>
      (\<forall>q. length q = length [1, 255 :: byte] \<and> ([1, 255], q) \<in> bytes_lex \<longrightarrow>
           q = [2, 0] \<or> ([2, 0], q) \<in> bytes_lex)"
    using nextSubtree_successor[of "[1, 255]"] a by blast
  then have "length [2, 7 :: byte] = length [1, 255 :: byte] \<and> ([1, 255], [2, 7]) \<in> bytes_lex \<longrightarrow>
      [2, 7] = [2, 0 :: byte] \<or> ([2, 0], [2, 7]) \<in> bytes_lex"
    by blast
  then have l: "([2, 0], [2, 7 :: byte]) \<in> bytes_lex" using b c by simp
  have n: "nextSubtree [255, 255] = None"
    using nextSubtree_successor[of "[255, 255]"] d by blast
  have k: "nextSubtree_call [1, 255] = ([1, 255], Some [2, 0])"
    using nextSubtree_successor[of "[1, 255]"] a by simp
  show ?thesis using a m l n k by simp
qed

section \<open>keyIsBefore\<close>

text \<open>
  C7. \<open>keyIsBefore\<close> puts a nil key after every key: with a nil first key the answer is
  "not first" and the second key; with a nil second key and a non-nil first key, the
  first key. Two non-nil keys are compared lexicographically as byte strings: the second
  key is the result exactly when it is strictly smaller than the first; otherwise, and so
  also for equal keys, the first key is reported first and returned.
\<close>

theorem keyIsBefore_spec:
  "keyIsBefore None k2 = (False, k2) \<and>
   keyIsBefore (Some a) None = (True, Some a) \<and>
   keyIsBefore (Some a) (Some b) =
     (if (b, a) \<in> bytes_lex then (False, Some b) else (True, Some a)) \<and>
   keyIsBefore (Some a) (Some a) = (True, Some a)"
proof -
  have "((b, a) \<in> bytes_lex) = (\<not> (bytes_Compare a b = -1 \<or> bytes_Compare a b = 0))"
    using bytes_Compare_gt[of a b] bytes_Compare_range[of a b] by auto
  moreover have "bytes_Compare a a = 0" by (simp add: bytes_Compare_eq)
  ultimately show ?thesis by (simp add: keyIsBefore_def)
qed

theorem keyIsBefore_spec_witness:
  "keyIsBefore None (Some [1]) = (False, Some [1]) \<and>
   keyIsBefore (Some [1, 2]) None = (True, Some [1, 2]) \<and>
   ([1, 2], [1, 3]) \<in> bytes_lex \<and>
   keyIsBefore (Some [1, 3]) (Some [1, 2]) = (False, Some [1, 2]) \<and>
   keyIsBefore (Some [1, 2]) (Some [1, 3]) = (True, Some [1, 2]) \<and>
   keyIsBefore (Some [1, 2]) (Some [1, 2]) = (True, Some [1, 2])"
proof -
  have a: "([1, 2], [1, 3 :: byte]) \<in> bytes_lex" by (simp add: bytes_lex_def)
  have b: "([1, 3], [1, 2 :: byte]) \<notin> bytes_lex" by (simp add: bytes_lex_def)
  show ?thesis
    using keyIsBefore_spec[of "Some [1]" "[1, 2]" "[1, 3]"]
      keyIsBefore_spec[of "Some [1]" "[1, 3]" "[1, 2]"] a b
    by simp
qed

section \<open>Effects of the opcodes on the stacks\<close>

lemma keccak_round_length: "length (keccak_round A rc) = 25"
proof -
  have r: "length (keccak_rhopi (keccak_theta A)) = 25"
    by (simp add: keccak_rhopi_def rhopi_src_def rhopi_rot_def)
  then obtain b0 b1 b2 b3 b4 b5 b6 b7 b8 b9 b10 b11 b12 b13 b14 b15 b16 b17 b18 b19 b20 b21 b22 b23 b24
    where "keccak_rhopi (keccak_theta A) = [b0,b1,b2,b3,b4,b5,b6,b7,b8,b9,b10,b11,b12,b13,b14,b15,b16,b17,b18,b19,b20,b21,b22,b23,b24]"
    by (auto simp: length_Suc_conv numeral_eq_Suc)
  then show ?thesis by (simp add: keccak_round_def)
qed

lemma foldl_round_length: "length A = 25 \<Longrightarrow> length (foldl keccak_round A rcs) = 25"
  by (induction rcs arbitrary: A) (simp_all add: keccak_round_length)

lemma keccak_f_length: "length A = 25 \<Longrightarrow> length (keccak_f A) = 25"
  by (simp add: keccak_f_def foldl_round_length)

lemma xor_into_length: "length (xor_into A ls) = length A"
  by (induction A ls rule: xor_into.induct) auto

lemma keccak_absorb_length: "length A = 25 \<Longrightarrow> length (keccak_absorb A p) = 25"
proof (induction A p rule: keccak_absorb.induct)
  case (1 A p)
  show ?case
  proof (cases "length p < 136")
    case True
    then show ?thesis using 1 by (simp add: keccak_absorb.simps)
  next
    case False
    then show ?thesis
      using 1 keccak_absorb.simps[of A p] by (simp add: keccak_f_length xor_into_length)
  qed
qed

lemma keccak256_length: "length (keccak256 m) = 32"
proof -
  have "length (keccak_absorb (replicate 25 0) (keccak_pad m)) = 25"
    by (rule keccak_absorb_length) simp
  then obtain a b c d rest where "keccak_absorb (replicate 25 0) (keccak_pad m) = a # b # c # d # rest"
    by (auto simp: length_Suc_conv numeral_eq_Suc)
  then show ?thesis by (simp add: keccak256_def lane_bytes_def)
qed

lemma writer_same_kind_refl: "writer_same_kind w w"
  by (cases w) auto

lemma writer_same_kind_trans:
  "writer_same_kind a b \<Longrightarrow> writer_same_kind b c \<Longrightarrow> writer_same_kind a c"
  by (cases a; cases b; cases c) auto

lemma writer_Write_kind: "writer_Write w d = Inr w' \<Longrightarrow> writer_same_kind w w'"
  by (cases w) (auto split: if_splits)

lemma writer_Writes_kind: "writer_Writes w ds = Inr w' \<Longrightarrow> writer_same_kind w w'"
proof (induction ds arbitrary: w)
  case Nil
  then show ?case by (simp add: writer_same_kind_refl)
next
  case (Cons d ds)
  then show ?case
    by (auto split: sum.splits intro: writer_same_kind_trans dest: writer_Write_kind)
qed

lemma completeLeafHash_frame:
  assumes "completeLeafHash hb kp kl cl key c0 ni val = Inr hb'"
  shows "hashStack hb' = hashStack hb \<and> nodeStack hb' = nodeStack hb \<and>
         dataLenStack hb' = dataLenStack hb \<and> acc hb' = acc hb \<and> valBuf hb' = valBuf hb \<and>
         (length (hashBuf hb) = 33 \<longrightarrow> length (hashBuf hb') = 33)"
proof -
  let ?w0 = "if length kp + kl + DoubleRLPLen val +
                 length (GenerateStructLen (length kp + kl + DoubleRLPLen val)) < HashLength
             then BufWriter (hashBuf hb) 0 else ShaWriter []"
  let ?chunks = "[GenerateStructLen (length kp + kl + DoubleRLPLen val), kp, [c0]] @
                 map (\<lambda>b. [b]) (compactTail key ni (cl - 1))"
  from assms obtain w1 vb w2 where
    w1: "writer_Writes ?w0 ?chunks = Inr w1" and
    vb: "ToDoubleRLP val = Inr vb" and
    w2: "writer_Write w1 vb = Inr w2" and
    r: "hb' = (case w2 of BufWriter dest pos \<Rightarrow> hb\<lparr>hashBuf := dest\<rparr>
                | ShaWriter absorbed \<Rightarrow> hb\<lparr>hashBuf := (0x80 + of_nat HashLength) # keccak256 absorbed\<rparr>)"
    unfolding completeLeafHash_def Let_def
    by (auto split: sum.splits writer.splits)
  have k: "writer_same_kind ?w0 w2"
    using writer_Writes_kind[OF w1] writer_Write_kind[OF w2] writer_same_kind_trans by blast
  show ?thesis
  proof (cases w2)
    case (ShaWriter a)
    then show ?thesis using r by (simp add: keccak256_length)
  next
    case (BufWriter d p)
    then have "length d = length (hashBuf hb)" using k by (auto split: if_splits)
    then show ?thesis using r BufWriter by simp
  qed
qed

lemma leafHashWithKeyVal_effect:
  assumes "leafHashWithKeyVal hb key val = Inr hb'"
  shows "hashStack hb' = hashStack hb @ hashBuf hb' \<and>
         dataLenStack hb' = dataLenStack hb @
            [of_nat (length (RawBytes val)) + 1 + of_nat (length key) div 2] \<and>
         nodeStack hb' =
            (if length (hashStack hb) + length (hashBuf hb') > hashStackStride * length (nodeStack hb)
             then nodeStack hb @ [NilNode] else nodeStack hb) \<and>
         acc hb' = acc hb \<and> valBuf hb' = valBuf hb \<and>
         (length (hashBuf hb) = 33 \<longrightarrow> length (hashBuf hb') = 33)"
proof -
  obtain kp kl cl c0 ni where ck: "compactKey key = (kp, kl, cl, c0, ni)"
    by (metis prod_cases5)
  from assms ck obtain hb1 where
    c: "completeLeafHash hb kp kl cl key c0 ni val = Inr hb1"
    unfolding leafHashWithKeyVal_def by (auto split: sum.splits)
  note f = completeLeafHash_frame[OF c]
  from assms ck c show ?thesis using f
    unfolding leafHashWithKeyVal_def Let_def by (auto split: if_splits)
qed

lemma leaf_effect:
  assumes "leaf hb len keyHex val = Inr hb'" and "stacks_synced hb" and "arrays_ok hb"
  shows "stacks_synced hb' \<and> arrays_ok hb' \<and>
         take (length (hashStack hb)) (hashStack hb') = hashStack hb \<and>
         0 \<le> len \<and> nat len \<le> length keyHex \<and>
         dataLenStack hb' = dataLenStack hb @
            [of_nat (length (RawBytes val)) + 1 + of_nat (nat len) div 2]"
proof -
  let ?key = "drop (length keyHex - nat len) keyHex"
  let ?s = "shortNode ?key (valueNode (RawBytes val)) (replicate 32 0) 0 0"
  let ?hb0 = "hb\<lparr>nodeStack := nodeStack hb @ [?s]\<rparr>"
  from assms(1) have len: "0 \<le> len" "nat len \<le> length keyHex"
    unfolding leaf_def by (auto split: if_splits)
  with assms(1) obtain hb1 where
    l: "leafHashWithKeyVal ?hb0 ?key val = Inr hb1" and
    r: "length (nodeStack hb') = length (nodeStack hb1)" and
    h: "hashStack hb' = hashStack hb1" "dataLenStack hb' = dataLenStack hb1"
       "hashBuf hb' = hashBuf hb1" "valBuf hb' = valBuf hb1"
    unfolding leaf_def Let_def by (auto split: sum.splits if_splits prod.splits)
  note e = leafHashWithKeyVal_effect[OF l]
  have b: "length (hashBuf hb1) = 33" using e assms(3) by (simp add: arrays_ok_def)
  have n: "nodeStack hb1 = nodeStack hb @ [?s]"
    using e b assms(2) by (simp add: stacks_synced_def)
  have kl: "length ?key = nat len" using len by simp
  show ?thesis
    using e b n r h assms(2,3) len kl
    by (simp add: stacks_synced_def arrays_ok_def)
qed

lemma accountLeafHashWithKey_effect:
  assumes "accountLeafHashWithKey env hb key popped = Inr hb'"
  shows "popped * hashStackStride \<le> length (hashStack hb) \<and>
         popped \<le> length (nodeStack hb) \<and> popped \<le> length (dataLenStack hb) \<and>
         hashStack hb' = take (length (hashStack hb) - popped * hashStackStride) (hashStack hb) @
                         hashBuf hb' \<and>
         nodeStack hb' = take (length (nodeStack hb) - popped) (nodeStack hb) @ [NilNode] \<and>
         dataLenStack hb' = take (length (dataLenStack hb) - popped) (dataLenStack hb) @
            [1 + of_nat (EncodingLengthForStorage env (acc hb)) + (1 + of_nat (length key) div 2) +
             sum_list (drop (length (dataLenStack hb) - popped) (dataLenStack hb))] \<and>
         acc hb' = acc hb \<and> length (valBuf hb') = length (valBuf hb) \<and>
         (length (hashBuf hb) = 33 \<longrightarrow> length (hashBuf hb') = 33)"
proof -
  obtain kp kl cl c0 ni where ck: "compactKey key = (kp, kl, cl, c0, ni)"
    by (metis prod_cases5)
  let ?enc = "EncodeForHashing env (acc hb)"
  let ?hb0 = "hb\<lparr>valBuf := ?enc @ drop (length ?enc) (valBuf hb)\<rparr>"
  let ?val = "RlpEncodedBytes (take (EncodingLengthForHashing env (acc hb)) (valBuf ?hb0))"
  from assms ck have g: "length ?enc \<le> length (valBuf hb)"
    unfolding accountLeafHashWithKey_def Let_def by (auto split: if_splits)
  from assms ck obtain hb1 where
    c: "completeLeafHash ?hb0 kp kl cl key c0 ni ?val = Inr hb1"
    unfolding accountLeafHashWithKey_def Let_def by (auto split: sum.splits if_splits)
  note f = completeLeafHash_frame[OF c]
  have z: "popped = 0 \<or> popped > 0" by auto
  from assms ck c g f z show ?thesis
    unfolding accountLeafHashWithKey_def Let_def
    by (auto split: if_splits)
qed

lemma accountLeaf_root_effect:
  assumes "accountLeaf_root hb fieldSet = Inr (a, root, p)"
  shows "p = (if fieldSet AND 4 \<noteq> 0 then 1 else 0)"
  using assms unfolding accountLeaf_root_def Let_def by (auto split: if_splits)

lemma accountLeaf_code_effect:
  assumes "accountLeaf_code hb a p fieldSet = Inr (a', c, p')"
  shows "p' = p + (if fieldSet AND 8 \<noteq> 0 then 1 else 0)"
  using assms unfolding accountLeaf_code_def Let_def
  by (auto split: if_splits node.splits)

lemma accountLeaf_effect:
  assumes "accountLeaf env hb len keyHex balance nonce incarnation fieldSet = Inr hb'"
    and "stacks_synced hb" and "arrays_ok hb"
  shows "stacks_synced hb' \<and> arrays_ok hb' \<and>
         0 \<le> len \<and> nat len \<le> length keyHex \<and>
         acc_popped fieldSet \<le> length (dataLenStack hb) \<and>
         dataLenStack hb' =
           take (length (dataLenStack hb) - acc_popped fieldSet) (dataLenStack hb) @
           [1 + of_nat (EncodingLengthForStorage env (acc hb')) + (1 + of_nat (nat len) div 2) +
            sum_list (drop (length (dataLenStack hb) - acc_popped fieldSet) (dataLenStack hb))]"
proof -
  let ?key = "drop (length keyHex - nat len) keyHex"
  let ?hb0 = "hb\<lparr>acc := (acc hb)\<lparr>Root := EmptyRoot, CodeHash := EmptyCodeHash,
                                       Nonce := nonce, Balance := balance,
                                       Initialised := True, Incarnation := incarnation\<rparr>\<rparr>"
  from assms(1) have len: "0 \<le> len" "nat len \<le> length keyHex"
    unfolding accountLeaf_def by (auto split: if_splits)
  with assms(1) obtain a1 root p1 a2 ac p hb2 where
    r: "accountLeaf_root ?hb0 fieldSet = Inr (a1, root, p1)" and
    c: "accountLeaf_code ?hb0 a1 p1 fieldSet = Inr (a2, ac, p)" and
    l: "accountLeafHashWithKey env (?hb0\<lparr>acc := a2\<rparr>) ?key p = Inr hb2" and
    h: "hashStack hb' = hashStack hb2" "dataLenStack hb' = dataLenStack hb2"
       "hashBuf hb' = hashBuf hb2" "valBuf hb' = valBuf hb2" "acc hb' = acc hb2"
       "length (nodeStack hb') = length (nodeStack hb2)"
    unfolding accountLeaf_def Let_def by (auto split: sum.splits if_splits prod.splits)
  have p: "p = acc_popped fieldSet"
    using accountLeaf_root_effect[OF r] accountLeaf_code_effect[OF c] by (simp add: acc_popped_def)
  note e = accountLeafHashWithKey_effect[OF l]
  have kl: "length ?key = nat len" using len by simp
  have pn: "p \<le> length (dataLenStack hb)" using e by simp
  have hbl: "length (hashBuf hb2) = 33" using e assms(3) by (simp add: arrays_ok_def)
  have "length (hashStack hb') = length (hashStack hb) - p * 33 + 33"
    using e h hbl by simp
  moreover have "length (dataLenStack hb') = length (dataLenStack hb) - p + 1"
    using e h by simp
  ultimately have lh: "length (hashStack hb') = hashStackStride * length (dataLenStack hb')"
    using assms(2) pn by (simp add: stacks_synced_def)
  have ln: "length (nodeStack hb') = length (dataLenStack hb')"
    using e h assms(2) pn by (simp add: stacks_synced_def)
  have ar: "arrays_ok hb'" using e h assms(3) by (simp add: arrays_ok_def)
  have dl: "dataLenStack hb' =
           take (length (dataLenStack hb) - p) (dataLenStack hb) @
           [1 + of_nat (EncodingLengthForStorage env (acc hb')) + (1 + of_nat (nat len) div 2) +
            sum_list (drop (length (dataLenStack hb) - p) (dataLenStack hb))]"
    using e h kl by simp
  show ?thesis
    using lh ln ar dl pn len unfolding p stacks_synced_def by blast
qed

lemma update_last: "dl \<noteq> [] \<Longrightarrow> dl[length dl - Suc 0 := v] = butlast dl @ [v]"
  by (induction dl rule: rev_induct) auto

lemma extensionHash_effect:
  assumes "extensionHash hb key = Inr hb'"
  shows "hashStackStride \<le> length (hashStack hb) \<and> dataLenStack hb \<noteq> [] \<and>
         length (hashStack hb') = length (hashStack hb) \<and>
         nodeStack hb' = nodeStack hb \<and>
         dataLenStack hb' = butlast (dataLenStack hb) @
            [1 + of_nat (length key) div 2 + last (dataLenStack hb)] \<and>
         acc hb' = acc hb \<and> valBuf hb' = valBuf hb \<and> hashBuf hb' = hashBuf hb"
proof -
  obtain kp kl cl c0 ni where ck: "compactKey key = (kp, kl, cl, c0, ni)"
    by (metis prod_cases5)
  from assms ck show ?thesis
    unfolding extensionHash_def Let_def
    by (auto split: if_splits simp: keccak256_length update_last)
qed

lemma extension_effect:
  assumes "extension hb key = Inr hb'" and "stacks_synced hb" and "arrays_ok hb"
  shows "stacks_synced hb' \<and> arrays_ok hb' \<and> dataLenStack hb \<noteq> [] \<and>
         dataLenStack hb' = butlast (dataLenStack hb) @
            [1 + of_nat (length key) div 2 + last (dataLenStack hb)]"
proof -
  from assms(1) obtain s hb1 where
    e: "extensionHash (hb\<lparr>nodeStack := (nodeStack hb)[length (nodeStack hb) - 1 := s]\<rparr>) key = Inr hb1"
    and h: "hashStack hb' = hashStack hb1" "dataLenStack hb' = dataLenStack hb1"
       "hashBuf hb' = hashBuf hb1" "valBuf hb' = valBuf hb1"
       "length (nodeStack hb') = length (nodeStack hb1)"
    unfolding extension_def Let_def by (auto split: sum.splits if_splits)
  note f = extensionHash_effect[OF e]
  show ?thesis using f h assms(2,3) by (simp add: stacks_synced_def arrays_ok_def)
qed

lemma branchHash_effect:
  assumes "branchHash hb s = Inr hb'"
  shows "0 < OnesCount16 s \<and> hashStackStride * OnesCount16 s \<le> length (hashStack hb) \<and>
         OnesCount16 s \<le> length (dataLenStack hb) \<and>
         length (hashStack hb') =
           length (hashStack hb) - hashStackStride * OnesCount16 s + hashStackStride \<and>
         dataLenStack hb' =
           take (length (dataLenStack hb) - OnesCount16 s) (dataLenStack hb) @
           [1 + 1 + sum_list (drop (length (dataLenStack hb) - OnesCount16 s) (dataLenStack hb))] \<and>
         nodeStack hb' =
           (if hashStackStride * length (nodeStack hb) > length (hashStack hb')
            then take (length (nodeStack hb) - OnesCount16 s) (nodeStack hb) @ [NilNode]
            else nodeStack hb) \<and>
         acc hb' = acc hb \<and> valBuf hb' = valBuf hb \<and> hashBuf hb' = hashBuf hb"
  using assms unfolding branchHash_def Let_def
  by (auto split: if_splits sum.splits simp: keccak256_length)

lemma branch_effect:
  assumes "branch hb s = Inr hb'" and "stacks_synced hb" and "arrays_ok hb"
  shows "stacks_synced hb' \<and> arrays_ok hb' \<and>
         0 < OnesCount16 s \<and> OnesCount16 s \<le> length (dataLenStack hb) \<and>
         dataLenStack hb' =
           take (length (dataLenStack hb) - OnesCount16 s) (dataLenStack hb) @
           [1 + 1 + sum_list (drop (length (dataLenStack hb) - OnesCount16 s) (dataLenStack hb))]"
proof -
  let ?d = "OnesCount16 s"
  from assms(1) obtain f hb1 where
    e: "branchHash (hb\<lparr>nodeStack := take (length (nodeStack hb) - ?d) (nodeStack hb) @ [f]\<rparr>) s
          = Inr hb1"
    and h: "hashStack hb' = hashStack hb1" "dataLenStack hb' = dataLenStack hb1"
       "hashBuf hb' = hashBuf hb1" "valBuf hb' = valBuf hb1"
       "length (nodeStack hb') = length (nodeStack hb1)"
    and d: "?d \<le> length (nodeStack hb)"
    unfolding branch_def Let_def by (auto split: sum.splits if_splits)
  note b = branchHash_effect[OF e]
  have d0: "0 < ?d" "?d \<le> length (dataLenStack hb)" using b by simp_all
  have lh: "length (hashStack hb1) = hashStackStride * (length (dataLenStack hb) - ?d + 1)"
    using b d0 assms(2) by (simp add: stacks_synced_def)
  have ln: "length (nodeStack hb1) = length (dataLenStack hb) - ?d + 1"
    using b d d0 lh assms(2) by (simp add: stacks_synced_def)
  have ld: "length (dataLenStack hb1) = length (dataLenStack hb) - ?d + 1"
    using b d0 by simp
  show ?thesis
    using b h d0 lh ln ld assms(3) by (simp add: stacks_synced_def arrays_ok_def)
qed

lemma hash_effect:
  assumes "hash hb h dataLen = Inr hb'" and "stacks_synced hb" and "arrays_ok hb"
    and "length h = HashLength"
  shows "stacks_synced hb' \<and> arrays_ok hb' \<and> dataLenStack hb' = dataLenStack hb @ [dataLen]"
  using assms by (auto simp: hash_def stacks_synced_def arrays_ok_def)

lemma code_effect:
  assumes "code hb c = Inr hb'" and "stacks_synced hb" and "arrays_ok hb"
  shows "stacks_synced hb' \<and> arrays_ok hb' \<and>
         dataLenStack hb' = dataLenStack hb @
            [1 + of_nat (length (case c of None \<Rightarrow> [] | Some b \<Rightarrow> b))]"
  using assms by (auto simp: code_def Let_def stacks_synced_def arrays_ok_def keccak256_length)

lemma EmptyRoot_length: "length EmptyRoot = 32"
  by (simp add: EmptyRoot_def state_emptyRoot_def)

lemma emptyRoot_effect:
  assumes "stacks_synced hb" and "arrays_ok hb"
  shows "stacks_synced (emptyRoot hb) \<and> arrays_ok (emptyRoot hb) \<and>
         dataLenStack (emptyRoot hb) = dataLenStack hb @ [0]"
  using assms by (auto simp: emptyRoot_def stacks_synced_def arrays_ok_def EmptyRoot_length)


section \<open>Concrete runs\<close>

lemma NewHashBuilder_ok: "stacks_synced NewHashBuilder \<and> arrays_ok NewHashBuilder"
  by (simp add: NewHashBuilder_def stacks_synced_def arrays_ok_def)

lemma demoTwo_eq:
  "demoTwo = NewHashBuilder\<lparr>hashStack := (0xa0 # demoHash) @ (0xa0 # demoHash),
                nodeStack := [NilNode, NilNode], dataLenStack := [3, 4]\<rparr>"
  by (simp add: demoTwo_def hash_def NewHashBuilder_def)

lemma demoTwo_ok: "stacks_synced demoTwo \<and> arrays_ok demoTwo"
  by (simp add: demoTwo_eq NewHashBuilder_def stacks_synced_def arrays_ok_def demoHash_def)

lemma OnesCount16_3: "OnesCount16 3 = 2"
  by (simp add: OnesCount16_def digits16_def bit_set_def)

lemma demo_branch:
  "isl (branch demoTwo 3) = False \<and> dataLenStack (projr (branch demoTwo 3)) = [9]"
  by (simp add: demoTwo_eq branch_def Let_def OnesCount16_3 NewHashBuilder_def branchHash_def
      branchHash_item_def digits16_def bit_set_def demoHash_def GenerateStructLen_def nth_append
      keccak256_length)

section \<open>The stacks stay synchronized\<close>

text \<open>
  C3 (as amended). After every HashBuilder opcode (leaf, accountLeaf, extension, branch,
  hash, code, emptyRoot) that returns without error, and whose operand, for \<open>HASH\<close>, is a
  hash of 32 bytes, the three stacks are synchronized: the hash stack holds 33 bytes for
  every entry of the witness-length stack, and the node stack has as many entries as the
  witness-length stack. The stacks are synchronized before the opcode (as they are in a
  new builder, and then by this theorem after every opcode), and the two buffers have the
  sizes of their array types.
\<close>

theorem exec_stacks_synced:
  assumes "stacks_synced hb" and "arrays_ok hb" and "opcode_ok op"
    and "exec env hb op = Inr hb'"
  shows "stacks_synced hb' \<and> arrays_ok hb'"
proof (cases op)
  case (LEAF len keyHex val)
  then show ?thesis using assms leaf_effect[of hb len keyHex val hb'] by simp
next
  case (ACCOUNT_LEAF len keyHex balance nonce incarnation fieldSet)
  then show ?thesis
    using assms accountLeaf_effect[of env hb len keyHex balance nonce incarnation fieldSet hb']
    by simp
next
  case (EXTENSION key)
  then show ?thesis using assms extension_effect[of hb key hb'] by simp
next
  case (BRANCH s)
  then show ?thesis using assms branch_effect[of hb s hb'] by simp
next
  case (HASH h dataLen)
  then show ?thesis using assms hash_effect[of hb h dataLen hb'] by simp
next
  case (CODE c)
  then show ?thesis using assms code_effect[of hb c hb'] by simp
next
  case EMPTY_ROOT
  then show ?thesis using assms emptyRoot_effect[of hb] by auto
qed

theorem exec_stacks_synced_witness:
  "stacks_synced demoTwo \<and> arrays_ok demoTwo \<and> opcode_ok (BRANCH 3) \<and>
   exec demoEnv demoTwo (BRANCH 3) = Inr (projr (branch demoTwo 3)) \<and>
   stacks_synced (projr (branch demoTwo 3)) \<and> arrays_ok (projr (branch demoTwo 3))"
proof -
  have e: "exec demoEnv demoTwo (BRANCH 3) = Inr (projr (branch demoTwo 3))"
    using demo_branch by (cases "branch demoTwo 3") auto
  show ?thesis
    using exec_stacks_synced[of demoTwo "BRANCH 3" demoEnv "projr (branch demoTwo 3)"]
      demoTwo_ok e by simp
qed

text \<open>
  C3 as stated fails. \<open>hash\<close> takes a byte slice of any length, checks nothing and returns
  without error: with an operand of three bytes on a new builder, the hash stack has four
  bytes for the one entry of the witness-length stack and of the node stack.
\<close>

theorem stacks_synced_counterexample:
  "stacks_synced NewHashBuilder \<and> arrays_ok NewHashBuilder \<and>
   exec demoEnv NewHashBuilder (HASH [1, 2, 3] 9) =
     Inr (NewHashBuilder\<lparr>hashStack := [0xa0, 1, 2, 3], nodeStack := [NilNode],
                          dataLenStack := [9]\<rparr>) \<and>
   length (hashStack (projr (exec demoEnv NewHashBuilder (HASH [1, 2, 3] 9)))) = 4 \<and>
   length (dataLenStack (projr (exec demoEnv NewHashBuilder (HASH [1, 2, 3] 9)))) = 1 \<and>
   \<not> stacks_synced (projr (exec demoEnv NewHashBuilder (HASH [1, 2, 3] 9)))"
proof -
  have e: "exec demoEnv NewHashBuilder (HASH [1, 2, 3] 9) =
     Inr (NewHashBuilder\<lparr>hashStack := [0xa0, 1, 2, 3], nodeStack := [NilNode],
                          dataLenStack := [9]\<rparr>)"
    by (simp add: hash_def NewHashBuilder_def)
  show ?thesis
    unfolding e using NewHashBuilder_ok by (simp add: stacks_synced_def NewHashBuilder_def)
qed

section \<open>Witness lengths\<close>

text \<open>
  C4 (as amended). Every opcode that returns without error on synchronized stacks leaves
  the witness-length stack as follows, in 64-bit arithmetic: \<open>LEAF\<close> pushes the length of
  the value's raw bytes plus one plus half the key length; \<open>ACCOUNT_LEAF\<close> replaces the
  slots it pops by their sum plus two plus half the key length plus the length of the
  account encoded for storage; \<open>EXTENSION\<close> adds one plus half the key length to the top;
  \<open>BRANCH\<close> replaces the slots it pops by their sum plus two (opcode and mask);
  \<open>HASH(h, w)\<close> pushes exactly \<open>w\<close>; \<open>CODE\<close> pushes one plus the length of the code;
  \<open>EMPTY_ROOT\<close> pushes zero.
\<close>

theorem exec_witness_length:
  assumes "stacks_synced hb" and "arrays_ok hb" and "opcode_ok op"
    and "exec env hb op = Inr hb'"
  shows "dataLenStack hb' =
     (let dl = dataLenStack hb; n = length dl in
      case op of
        LEAF len keyHex val \<Rightarrow>
          dl @ [of_nat (length (RawBytes val)) + 1 + of_nat (nat len) div 2]
      | ACCOUNT_LEAF len keyHex balance nonce incarnation fieldSet \<Rightarrow>
          take (n - acc_popped fieldSet) dl @
          [1 + of_nat (EncodingLengthForStorage env (acc hb')) + (1 + of_nat (nat len) div 2) +
           sum_list (drop (n - acc_popped fieldSet) dl)]
      | EXTENSION key \<Rightarrow> butlast dl @ [1 + of_nat (length key) div 2 + last dl]
      | BRANCH s \<Rightarrow> take (n - OnesCount16 s) dl @ [1 + 1 + sum_list (drop (n - OnesCount16 s) dl)]
      | HASH h w \<Rightarrow> dl @ [w]
      | CODE c \<Rightarrow> dl @ [1 + of_nat (length (case c of None \<Rightarrow> [] | Some b \<Rightarrow> b))]
      | EMPTY_ROOT \<Rightarrow> dl @ [0])"
proof (cases op)
  case (LEAF len keyHex val)
  then have "leaf hb len keyHex val = Inr hb'" using assms(4) by simp
  from leaf_effect[OF this assms(1,2)]
  have "dataLenStack hb' = dataLenStack hb @
            [of_nat (length (RawBytes val)) + 1 + of_nat (nat len) div 2]" by blast
  then show ?thesis unfolding LEAF Let_def by simp
next
  case (ACCOUNT_LEAF len keyHex balance nonce incarnation fieldSet)
  then have "accountLeaf env hb len keyHex balance nonce incarnation fieldSet = Inr hb'"
    using assms(4) by simp
  from accountLeaf_effect[OF this assms(1,2)]
  have "dataLenStack hb' =
           take (length (dataLenStack hb) - acc_popped fieldSet) (dataLenStack hb) @
           [1 + of_nat (EncodingLengthForStorage env (acc hb')) + (1 + of_nat (nat len) div 2) +
            sum_list (drop (length (dataLenStack hb) - acc_popped fieldSet) (dataLenStack hb))]"
    by blast
  then show ?thesis unfolding ACCOUNT_LEAF Let_def by simp
next
  case (EXTENSION key)
  then show ?thesis using assms extension_effect[of hb key hb'] by (simp add: Let_def)
next
  case (BRANCH s)
  then show ?thesis using assms branch_effect[of hb s hb'] by (simp add: Let_def)
next
  case (HASH h dataLen)
  then show ?thesis using assms hash_effect[of hb h dataLen hb'] by (simp add: Let_def)
next
  case (CODE c)
  then show ?thesis using assms code_effect[of hb c hb'] by (simp add: Let_def)
next
  case EMPTY_ROOT
  then show ?thesis using assms emptyRoot_effect[of hb] by (auto simp: Let_def)
qed

theorem exec_witness_length_witness:
  "stacks_synced demoTwo \<and> arrays_ok demoTwo \<and> opcode_ok (BRANCH 3) \<and>
   exec demoEnv demoTwo (BRANCH 3) = Inr (projr (branch demoTwo 3)) \<and>
   dataLenStack (projr (branch demoTwo 3)) = [9]"
proof -
  have e: "exec demoEnv demoTwo (BRANCH 3) = Inr (projr (branch demoTwo 3))"
    using demo_branch by (cases "branch demoTwo 3") auto
  have d: "dataLenStack demoTwo = [3, 4]" by (simp add: demoTwo_eq)
  show ?thesis
    using exec_witness_length[of demoTwo "BRANCH 3" demoEnv "projr (branch demoTwo 3)"]
      demoTwo_ok e d by (simp add: OnesCount16_3)
qed

text \<open>
  C4 as stated fails: \<open>HASH(h, 5)\<close> pushes 5, not 6; \<open>BRANCH\<close> over children of
  witness lengths 3 and 4 pushes 9, not 8; \<open>LEAF\<close> with a three-byte value and a
  three-nibble key pushes 5, not 2; \<open>ACCOUNT_LEAF\<close> with a three-nibble key and a
  one-byte storage encoding pushes 4, not 3.
\<close>

theorem witness_length_counterexample:
  "dataLenStack (projr (hash NewHashBuilder demoHash 5)) = [5] \<and> (5 :: 64 word) \<noteq> 5 + 1 \<and>
   dataLenStack (projr (branch demoTwo 3)) = [9] \<and> (9 :: 64 word) \<noteq> (3 + 4) + 1 \<and>
   dataLenStack (projr (leaf NewHashBuilder 3 [1, 2, 16] demoVal)) = [5] \<and>
     (5 :: 64 word) \<noteq> 1 + of_nat (length [1, 2, 16 :: byte]) div 2 \<and>
   dataLenStack (projr (accountLeaf demoEnv NewHashBuilder 3 [1, 2, 16] 0 0 0 0)) = [4] \<and>
     (4 :: 64 word) \<noteq> 1 + of_nat (length [1, 2, 16 :: byte]) div 2 +
        of_nat (EncodingLengthForStorage demoEnv
                  (acc (projr (accountLeaf demoEnv NewHashBuilder 3 [1, 2, 16] 0 0 0 0))))"
proof -
  have a: "dataLenStack (projr (hash NewHashBuilder demoHash 5)) = [5]"
    by (simp add: hash_def NewHashBuilder_def)
  have b: "dataLenStack (projr (branch demoTwo 3)) = [9]"
    by (simp add: demo_branch)
  have c: "dataLenStack (projr (leaf NewHashBuilder 3 [1, 2, 16] demoVal)) = [5]"
    by (simp add: leaf_def Let_def leafHashWithKeyVal_def compactKey_def hasTerm_def
      completeLeafHash_def GenerateStructLen_def NewHashBuilder_def demoVal_def)
  have d: "dataLenStack (projr (accountLeaf demoEnv NewHashBuilder 3 [1, 2, 16] 0 0 0 0)) = [4]"
    by (simp add: accountLeaf_def Let_def accountLeaf_root_def accountLeaf_code_def
      accountLeafHashWithKey_def compactKey_def hasTerm_def completeLeafHash_def
      GenerateStructLen_def NewHashBuilder_def demoEnv_def RlpEncodedBytes_def rlp_string_def
      rlp_header_def)
  show ?thesis using a b c d by (simp add: demoEnv_def)
qed


section \<open>RootHash\<close>

lemma Reset_stacks:
  "hashStack (Reset hb) = [] \<and> nodeStack (Reset hb) = [] \<and> dataLenStack (Reset hb) = []"
  by (simp add: Reset_def Let_def)

text \<open>
  C10. On synchronized stacks \<open>RootHash\<close> returns an error exactly when the stacks are
  empty, and the error is "no root"; so it does on a new builder and after \<open>Reset\<close>.
  With at least one slot it succeeds and returns the 32 bytes that follow the
  length-prefix byte of the top slot of the hash stack. It leaves the builder as it was.
\<close>

theorem RootHash_spec:
  assumes "stacks_synced hb"
  shows "(isl (fst (RootHash hb)) \<longleftrightarrow>
            hashStack hb = [] \<and> nodeStack hb = [] \<and> dataLenStack hb = []) \<and>
         (isl (fst (RootHash hb)) \<longrightarrow> fst (RootHash hb) = Inl ErrNoRoot) \<and>
         (dataLenStack hb \<noteq> [] \<longrightarrow>
            fst (RootHash hb) =
              Inr (drop 1 (drop (length (hashStack hb) - hashStackStride) (hashStack hb))) \<and>
            length (projr (fst (RootHash hb))) = HashLength) \<and>
         snd (RootHash hb) = hb \<and>
         fst (RootHash (Reset hb0)) = Inl ErrNoRoot \<and>
         fst (RootHash NewHashBuilder) = Inl ErrNoRoot"
proof (cases "dataLenStack hb = []")
  case True
  then show ?thesis using assms Reset_stacks[of hb0]
    by (simp add: stacks_synced_def RootHash_def hasRoot_def NewHashBuilder_def)
next
  case False
  then have "length (dataLenStack hb) \<ge> 1" by (cases "dataLenStack hb") auto
  then have n: "nodeStack hb \<noteq> []" "length (hashStack hb) \<ge> 33"
    using assms by (auto simp: stacks_synced_def)
  then have h: "hashStack hb \<noteq> []" by auto
  have d: "drop (Suc (length (hashStack hb)) - 33) (hashStack hb) =
           drop 1 (drop (length (hashStack hb) - 33) (hashStack hb))"
  proof -
    have "Suc (length (hashStack hb)) - 33 = 1 + (length (hashStack hb) - 33)" using n by simp
    then show ?thesis by (simp only: drop_drop)
  qed
  show ?thesis using False n h d Reset_stacks[of hb0]
    by (simp add: RootHash_def hasRoot_def rootHash_def NewHashBuilder_def)
qed

theorem RootHash_spec_witness:
  "stacks_synced demoTwo \<and> dataLenStack demoTwo \<noteq> [] \<and>
   fst (RootHash demoTwo) = Inr demoHash \<and> snd (RootHash demoTwo) = demoTwo \<and>
   stacks_synced NewHashBuilder \<and> isl (fst (RootHash NewHashBuilder)) \<and>
   fst (RootHash (Reset demoTwo)) = Inl ErrNoRoot"
proof -
  have a: "dataLenStack demoTwo \<noteq> []" by (simp add: demoTwo_eq)
  have b: "drop 1 (drop (length (hashStack demoTwo) - 33) (hashStack demoTwo)) = demoHash"
    by (simp add: demoTwo_eq demoHash_def)
  have s2: "stacks_synced demoTwo" using demoTwo_ok by simp
  have s0: "stacks_synced NewHashBuilder" using NewHashBuilder_ok by simp
  note t2 = RootHash_spec[OF s2, of demoTwo]
  note t0 = RootHash_spec[OF s0, of demoTwo]
  have r: "fst (RootHash demoTwo) = Inr demoHash" using t2 a b by metis
  have q: "snd (RootHash demoTwo) = demoTwo" using t2 by blast
  have e: "hashStack NewHashBuilder = [] \<and> nodeStack NewHashBuilder = [] \<and>
           dataLenStack NewHashBuilder = []" by (simp add: NewHashBuilder_def)
  have i: "isl (fst (RootHash NewHashBuilder))" using t0 e by blast
  have z: "fst (RootHash (Reset demoTwo)) = Inl ErrNoRoot" using t2 by blast
  show ?thesis using s2 s0 a r q i z by blast
qed


section \<open>BRANCH builds a list of 17 elements\<close>

lemma bit_set_iff: "bit_set s d \<longleftrightarrow> bit s d"
  unfolding bit_set_def
  by (metis (no_types, lifting) and.commute and_exp_eq_0_iff_not_bit push_bit_of_1)

lemma slot_at_length: "hashStackStride * (i + 1) \<le> length hashes \<Longrightarrow> length (slot_at hashes i) = 33"
  by (simp add: slot_at_def)

lemma slot_at_0: "hashStackStride * (i + 1) \<le> length hashes \<Longrightarrow> slot_at hashes i ! 0 = hashes ! (hashStackStride * i)"
  by (simp add: slot_at_def)

lemma byte_c0:
  assumes "(0xc0::byte) \<le> p" and "p \<le> 0xe0"
  shows "unat p \<le> 0xe0" and "0xc0 \<le> unat p" and "unat (p - 0xc0) = unat p - 0xc0"
  using assms by (simp_all add: word_le_nat_alt unat_sub)

lemma items_step:
  assumes "hashStackStride * (i + 1) \<le> length hashes" and "slot_ok (slot_at hashes i)"
  shows "branchHash_item hashes i = Inr (child_rlp (slot_at hashes i))"
proof -
  let ?p = "hashes ! (hashStackStride * i)"
  have p: "slot_at hashes i ! 0 = ?p" using assms(1) by (rule slot_at_0)
  show ?thesis
  proof (cases "?p = 0xa0")
    case True
    then show ?thesis using p by (simp add: child_rlp_def slot_at_def branchHash_item_def)
  next
    case False
    then have r: "0xc0 \<le> ?p" "?p \<le> 0xe0" using assms(2) p by (auto simp: slot_ok_def)
    note b = byte_c0[OF r]
    have n: "unat ?p + 1 - 0xc0 = unat ?p - 0xc0 + 1" using b(2) by arith
    have "take (unat ?p - 0xc0 + 1) (slot_at hashes i) =
          take (unat ?p - 0xc0 + 1) (drop (hashStackStride * i) hashes)"
      using b by (simp add: slot_at_def min_def)
    then show ?thesis using False p b n assms(1)
      by (simp add: child_rlp_def Let_def branchHash_item_def)
  qed
qed

lemma branchHash_items_spec:
  assumes "hashStackStride * (i + length (filter (bit s) ds)) \<le> length hashes"
    and "\<forall>k < length (filter (bit s) ds). slot_ok (slot_at hashes (i + k))"
  shows "branchHash_items s hashes ds i = Inr (items_spec s hashes ds i)"
  using assms
proof (induction ds arbitrary: i)
  case Nil
  then show ?case by simp
next
  case (Cons d ds)
  show ?case
  proof (cases "bit s d")
    case True
    have a: "hashStackStride * (i + 1) \<le> length hashes" using Cons.prems(1) True by simp
    have b: "slot_ok (slot_at hashes i)" using Cons.prems(2) True by auto
    have c: "hashStackStride * (i + 1 + length (filter (bit s) ds)) \<le> length hashes"
      using Cons.prems(1) True by simp
    have d: "\<forall>k < length (filter (bit s) ds). slot_ok (slot_at hashes (i + 1 + k))"
      using Cons.prems(2) True by auto
    show ?thesis
      using True Cons.IH[OF c d] items_step[OF a b]
      by (simp add: bit_set_iff)
  next
    case False
    then show ?thesis using Cons by (simp add: bit_set_iff)
  qed
qed

lemma child_rlp_length:
  assumes "hashStackStride * (i + 1) \<le> length hashes" and "slot_ok (slot_at hashes i)"
  shows "length (child_rlp (slot_at hashes i)) =
     Suc (if hashes ! (hashStackStride * i) = 0xa0 then HashLength
          else unat (hashes ! (hashStackStride * i) - 0xc0))"
proof -
  let ?p = "hashes ! (hashStackStride * i)"
  have p: "slot_at hashes i ! 0 = ?p" using assms(1) by (rule slot_at_0)
  have l: "length (slot_at hashes i) = 33" using assms(1) by (rule slot_at_length)
  show ?thesis
  proof (cases "?p = 0xa0")
    case True
    then show ?thesis using p l by (simp add: child_rlp_def)
  next
    case False
    then have r: "0xc0 \<le> ?p" "?p \<le> 0xe0" using assms(2) p by (auto simp: slot_ok_def)
    note b = byte_c0[OF r]
    have "min (unat ?p - 0xc0 + 1) 33 = unat ?p - 0xc0 + 1" using b(1) by arith
    then show ?thesis using False p l b(3) by (simp add: child_rlp_def)
  qed
qed

lemma branchHash_size_spec:
  assumes "hashStackStride * (i + length (filter (bit s) ds)) \<le> length hashes"
    and "\<forall>k < length (filter (bit s) ds). slot_ok (slot_at hashes (i + k))"
  shows "branchHash_size s hashes ds i (t + length ds) =
         t + length (concat (items_spec s hashes ds i))"
  using assms
proof (induction ds arbitrary: i t)
  case Nil
  then show ?case by simp
next
  case (Cons d ds)
  show ?case
  proof (cases "bit s d")
    case True
    have a: "hashStackStride * (i + 1) \<le> length hashes" using Cons.prems(1) True by simp
    have b: "slot_ok (slot_at hashes i)" using Cons.prems(2) True by auto
    have c: "hashStackStride * (i + 1 + length (filter (bit s) ds)) \<le> length hashes"
      using Cons.prems(1) True by simp
    have d: "\<forall>k < length (filter (bit s) ds). slot_ok (slot_at hashes (i + 1 + k))"
      using Cons.prems(2) True by auto
    let ?w = "if hashes ! (hashStackStride * i) = 0xa0 then HashLength
              else unat (hashes ! (hashStackStride * i) - 0xc0)"
    have "branchHash_size s hashes (d # ds) i (t + length (d # ds)) =
          branchHash_size s hashes ds (i + 1) ((t + 1 + ?w) + length ds)"
      using True by (simp add: bit_set_iff ac_simps)
    also have "\<dots> = (t + 1 + ?w) + length (concat (items_spec s hashes ds (i + 1)))"
      by (rule Cons.IH[OF c d])
    finally show ?thesis using True child_rlp_length[OF a b] by simp
  next
    case False
    have "branchHash_size s hashes (d # ds) i (t + length (d # ds)) =
          branchHash_size s hashes ds i ((t + 1) + length ds)"
      using False by (simp add: bit_set_iff)
    also have "\<dots> = (t + 1) + length (concat (items_spec s hashes ds i))"
      using Cons.IH[of i "t + 1"] Cons.prems False by simp
    finally show ?thesis using False by simp
  qed
qed

lemma be_bytes_1: "0 < n \<Longrightarrow> n < 256 \<Longrightarrow> be_bytes n = [of_nat n]"
  by (simp add: be_bytes.simps[of n] be_bytes.simps[of 0])

lemma be_bytes_2: "256 \<le> n \<Longrightarrow> n < 65536 \<Longrightarrow> be_bytes n = [of_nat (n div 256), of_nat (n mod 256)]"
proof -
  assume a: "256 \<le> n" "n < 65536"
  then have "0 < n div 256" "n div 256 < 256" by (simp_all add: div_greater_zero_iff less_mult_imp_div_less)
  then have "be_bytes (n div 256) = [of_nat (n div 256)]" by (rule be_bytes_1)
  then show ?thesis using a by (simp add: be_bytes.simps[of n])
qed

lemma be_bytes_3: "65536 \<le> n \<Longrightarrow> n < 16777216 \<Longrightarrow>
  be_bytes n = [of_nat (n div 65536), of_nat ((n div 256) mod 256), of_nat (n mod 256)]"
proof -
  assume a: "65536 \<le> n" "n < 16777216"
  then have "256 \<le> n div 256" "n div 256 < 65536" by (simp_all add: less_mult_imp_div_less)
  then have "be_bytes (n div 256) = [of_nat (n div 256 div 256), of_nat (n div 256 mod 256)]"
    by (rule be_bytes_2)
  moreover have "n div 256 div 256 = n div 65536" by (simp add: div_mult2_eq)
  ultimately show ?thesis using a by (simp add: be_bytes.simps[of n])
qed

lemma GenerateStructLen_rlp: "l < 16777216 \<Longrightarrow> GenerateStructLen l = rlp_header 0xc0 l"
  unfolding GenerateStructLen_def rlp_header_def
  using be_bytes_1[of l] be_bytes_2[of l] be_bytes_3[of l]
  by (auto simp: not_less)

lemma items_spec_length: "length (items_spec s hashes ds i) = length ds"
  by (induction ds arbitrary: i) auto

lemma items_spec_nth:
  "a \<le> d \<Longrightarrow> d < b \<Longrightarrow>
   items_spec s hashes [a..<b] i ! (d - a) =
     (if bit s d then child_rlp (slot_at hashes (i + length (filter (bit s) [a..<d])))
      else [0x80])"
proof (induction "d - a" arbitrary: a i)
  case 0
  then have "d = a" by simp
  then show ?case using 0 by (simp add: upt_conv_Cons)
next
  case (Suc m)
  then have a: "a < d" "a < b" "Suc a \<le> d" "m = d - Suc a" by simp_all
  have u: "[a..<b] = a # [Suc a..<b]" using a by (simp add: upt_conv_Cons)
  have v: "[a..<d] = a # [Suc a..<d]" using a by (simp add: upt_conv_Cons)
  have n: "d - a = Suc (d - Suc a)" using a by simp
  show ?case
    using Suc.hyps(1)[OF a(4) a(3) Suc.prems(2), of "i + 1"]
          Suc.hyps(1)[OF a(4) a(3) Suc.prems(2), of i]
    unfolding u v n by simp
qed

lemma digits16_upt: "digits16 = [0..<16]" "digits16 @ [16] = [0..<17]"
  by (simp_all add: digits16_def upt_conv_Cons)

lemma bit16_high: "\<not> bit (s :: 16 word) 16"
  using bit_imp_le_length[of s 16] by auto

lemma OnesCount16_filter: "OnesCount16 s = length (filter (bit s) [0..<16])"
  unfolding OnesCount16_def digits16_upt
  by (rule arg_cong[where f = length], rule filter_cong) (simp_all add: bit_set_iff)

lemma OnesCount16_card: "OnesCount16 s = card {d. bit s d}"
proof -
  have e: "{d. bit s d} = set (filter (bit s) [0..<16])"
    using bit_imp_le_length[of s] by auto
  have "card (set (filter (bit s) [0..<16])) = length (filter (bit s) [0..<16])"
    by (rule distinct_card) simp
  then show ?thesis unfolding e OnesCount16_filter by (rule sym)
qed

lemma filter17: "length (filter (bit (s :: 16 word)) [0..<17]) = OnesCount16 s"
proof -
  have "[0..<17] = [0..<16] @ [16]" by (simp add: upt_conv_Cons)
  then show ?thesis using bit16_high[of s] by (simp add: OnesCount16_filter)
qed

lemma items_spec_append:
  "items_spec s hashes (xs @ ys) i =
   items_spec s hashes xs i @ items_spec s hashes ys (i + length (filter (bit s) xs))"
  by (induction xs arbitrary: i) auto

lemma items_spec_bound:
  assumes "hashStackStride * (i + length (filter (bit s) ds)) \<le> length hashes"
    and "\<forall>k < length (filter (bit s) ds). slot_ok (slot_at hashes (i + k))"
  shows "length (concat (items_spec s hashes ds i)) \<le> hashStackStride * length ds"
  using assms
proof (induction ds arbitrary: i)
  case Nil
  then show ?case by simp
next
  case (Cons d ds)
  show ?case
  proof (cases "bit s d")
    case True
    have a: "hashStackStride * (i + 1) \<le> length hashes" using Cons.prems(1) True by simp
    have b: "slot_ok (slot_at hashes i)" using Cons.prems(2) True by auto
    have c: "hashStackStride * (i + 1 + length (filter (bit s) ds)) \<le> length hashes"
      using Cons.prems(1) True by simp
    have d: "\<forall>k < length (filter (bit s) ds). slot_ok (slot_at hashes (i + 1 + k))"
      using Cons.prems(2) True by auto
    have "length (child_rlp (slot_at hashes i)) \<le> 33"
      using slot_at_length[OF a] by (simp add: child_rlp_def)
    then show ?thesis using True Cons.IH[OF c d] by simp
  next
    case False
    then show ?thesis using Cons.IH[of i] Cons.prems by simp
  qed
qed

lemma branchHash_result:
  assumes "0 < OnesCount16 s"
    and "hashStackStride * OnesCount16 s \<le> length (hashStack hb)"
    and "OnesCount16 s \<le> length (dataLenStack hb)"
    and "hashStackStride * length (nodeStack hb) + hashStackStride * OnesCount16 s \<le>
         length (hashStack hb) + hashStackStride"
    and "\<forall>k < OnesCount16 s.
           slot_ok (slot_at (drop (length (hashStack hb) - hashStackStride * OnesCount16 s)
                                  (hashStack hb)) k)"
  shows "branchHash hb s =
     Inr (hb\<lparr>hashStack :=
              take (length (hashStack hb) - hashStackStride * OnesCount16 s) (hashStack hb) @
              0xa0 # keccak256 (rlp_list (branch_items s
                 (drop (length (hashStack hb) - hashStackStride * OnesCount16 s) (hashStack hb)))),
            dataLenStack :=
              take (length (dataLenStack hb) - OnesCount16 s) (dataLenStack hb) @
              [1 + 1 + sum_list (drop (length (dataLenStack hb) - OnesCount16 s)
                                      (dataLenStack hb))]\<rparr>)"
proof -
  let ?n = "OnesCount16 s"
  let ?hashes = "drop (length (hashStack hb) - hashStackStride * ?n) (hashStack hb)"
  have lh: "length ?hashes = hashStackStride * ?n" using assms(2) by simp
  have f16: "length (filter (bit s) [0..<16]) = ?n" by (simp add: OnesCount16_filter)
  have f17: "length (filter (bit s) [0..<17]) = ?n" by (rule filter17)
  have i: "branchHash_items s ?hashes [0..<17] 0 = Inr (branch_items s ?hashes)"
    unfolding branch_items_def
    by (rule branchHash_items_spec) (use lh f17 assms(5) in simp_all)
  have "branchHash_size s ?hashes [0..<16] 0 (1 + length [0..<16]) =
        1 + length (concat (items_spec s ?hashes [0..<16] 0))"
    by (rule branchHash_size_spec) (use lh f16 assms(5) in simp_all)
  moreover have "[0..<17] = [0..<16] @ [16]" by (simp add: upt_conv_Cons)
  ultimately have sz: "branchHash_size s ?hashes [0..<16] 0 17 =
        length (concat (branch_items s ?hashes))"
    using bit16_high[of s] by (simp add: branch_items_def items_spec_append)
  have "length (concat (branch_items s ?hashes)) \<le> hashStackStride * length [0..<17]"
    unfolding branch_items_def
    by (rule items_spec_bound) (use lh f17 assms(5) in simp_all)
  then have "length (concat (branch_items s ?hashes)) < 16777216" by simp
  then have g: "GenerateStructLen (length (concat (branch_items s ?hashes))) @
                concat (branch_items s ?hashes) = rlp_list (branch_items s ?hashes)"
    by (simp add: GenerateStructLen_rlp rlp_list_def)
  have i': "branchHash_items s ?hashes (digits16 @ [16]) 0 = Inr (branch_items s ?hashes)"
    using i unfolding digits16_upt(2) .
  have sz': "branchHash_size s ?hashes digits16 0 17 = length (concat (branch_items s ?hashes))"
    using sz unfolding digits16_upt(1) .
  have nc: "\<not> length (hashStack hb) + hashStackStride - hashStackStride * ?n
               < hashStackStride * length (nodeStack hb)"
    using assms(2,4) by arith
  show ?thesis
    unfolding branchHash_def Let_def i' sz'
    using assms(1-3) nc by (simp add: keccak256_length g)
qed

text \<open>
  C5 (as amended). For every 16-bit mask with at least one bit set and popcount \<open>n\<close>,
  \<open>BRANCH(mask)\<close> on a builder with synchronized stacks that hold at least \<open>n\<close> slots,
  the top \<open>n\<close> of them starting with \<open>0xa0\<close> or an embedded-list header, succeeds,
  pops exactly \<open>n\<close> slots from each stack and pushes exactly one. The new hash slot is
  \<open>0x80 + 32\<close> followed by the Keccak-256 of the RLP list of 17 elements in which the
  popped children stand at the positions of the set bits 0 to 15 in ascending order, every
  other position among 0 to 15 is the empty string, and element 16 is the empty string.
\<close>

theorem branch_builds_list:
  assumes "stacks_synced hb"
    and "0 < OnesCount16 s"
    and "OnesCount16 s \<le> length (dataLenStack hb)"
    and "\<forall>k < OnesCount16 s.
           slot_ok (slot_at (drop (length (hashStack hb) - hashStackStride * OnesCount16 s)
                                  (hashStack hb)) k)"
  shows "OnesCount16 s = card {d. bit s d} \<and>
    (let n = OnesCount16 s;
         popped = drop (length (hashStack hb) - hashStackStride * n) (hashStack hb);
         items = branch_items s popped
     in length items = 17 \<and>
        (\<forall>d < 16. items ! d =
            (if bit s d then child_rlp (slot_at popped (length (filter (bit s) [0..<d])))
             else [0x80])) \<and>
        items ! 16 = [0x80] \<and>
        (case branch hb s of
           Inl e \<Rightarrow> False
         | Inr hb' \<Rightarrow>
             hashStack hb' =
               take (length (hashStack hb) - hashStackStride * n) (hashStack hb) @
               [0x80 + 32] @ keccak256 (rlp_list items) \<and>
             length (nodeStack hb') = length (nodeStack hb) - n + 1 \<and>
             butlast (nodeStack hb') = take (length (nodeStack hb) - n) (nodeStack hb) \<and>
             length (dataLenStack hb') = length (dataLenStack hb) - n + 1 \<and>
             butlast (dataLenStack hb') =
               take (length (dataLenStack hb) - n) (dataLenStack hb)))"
proof -
  let ?n = "OnesCount16 s"
  let ?popped = "drop (length (hashStack hb) - hashStackStride * ?n) (hashStack hb)"
  let ?items = "branch_items s ?popped"
  let ?nodes = "drop (length (nodeStack hb) - ?n) (nodeStack hb)"
  let ?dls = "drop (length (dataLenStack hb) - ?n) (dataLenStack hb)"
  let ?f = "fullNode (branch_children s ?nodes ?popped ?dls digits16 0 @ [NilNode])
                     (replicate 32 0) 0 0"
  let ?hb0 = "hb\<lparr>nodeStack := take (length (nodeStack hb) - ?n) (nodeStack hb) @ [?f]\<rparr>"
  have ln: "length (nodeStack hb) = length (dataLenStack hb)"
    and lh: "length (hashStack hb) = hashStackStride * length (dataLenStack hb)"
    using assms(1) by (simp_all add: stacks_synced_def)
  have p2: "hashStackStride * ?n \<le> length (hashStack ?hb0)" using lh assms(3) by simp
  have p3: "?n \<le> length (dataLenStack ?hb0)" using assms(3) by simp
  have p4: "hashStackStride * length (nodeStack ?hb0) + hashStackStride * ?n \<le>
            length (hashStack ?hb0) + hashStackStride"
    using ln lh assms(3) by simp
  have p5: "\<forall>k < ?n. slot_ok (slot_at (drop (length (hashStack ?hb0) - hashStackStride * ?n)
                                  (hashStack ?hb0)) k)"
    using assms(4) by simp
  have bh: "branchHash ?hb0 s =
     Inr (?hb0\<lparr>hashStack :=
              take (length (hashStack hb) - hashStackStride * ?n) (hashStack hb) @
              0xa0 # keccak256 (rlp_list ?items),
            dataLenStack :=
              take (length (dataLenStack hb) - ?n) (dataLenStack hb) @
              [1 + 1 + sum_list ?dls]\<rparr>)"
    using branchHash_result[OF assms(2) p2 p3 p4 p5] by simp
  have it_len: "length ?items = 17" by (simp add: branch_items_def items_spec_length)
  have it_nth: "\<forall>d < 16. ?items ! d =
            (if bit s d then child_rlp (slot_at ?popped (length (filter (bit s) [0..<d])))
             else [0x80])"
    using items_spec_nth[of 0 _ 17 s ?popped 0] by (simp add: branch_items_def)
  have it_16: "?items ! 16 = [0x80]"
    using items_spec_nth[of 0 16 17 s ?popped 0] bit16_high[of s] by (simp add: branch_items_def)
  have br: "case branch hb s of
           Inl e \<Rightarrow> False
         | Inr hb' \<Rightarrow>
             hashStack hb' =
               take (length (hashStack hb) - hashStackStride * ?n) (hashStack hb) @
               [0x80 + 32] @ keccak256 (rlp_list ?items) \<and>
             length (nodeStack hb') = length (nodeStack hb) - ?n + 1 \<and>
             butlast (nodeStack hb') = take (length (nodeStack hb) - ?n) (nodeStack hb) \<and>
             length (dataLenStack hb') = length (dataLenStack hb) - ?n + 1 \<and>
             butlast (dataLenStack hb') =
               take (length (dataLenStack hb) - ?n) (dataLenStack hb)"
    unfolding branch_def Let_def bh
    using assms(2,3) ln lh by (simp add: butlast_list_update)
  show ?thesis
    unfolding Let_def using OnesCount16_card[of s] it_len it_nth it_16 br by blast
qed


section \<open>LEAF: embedded or hashed\<close>

lemma writer_Writes_Sha:
  "writer_Writes (ShaWriter a) cs = Inr (ShaWriter (a @ concat cs))"
  by (induction cs arbitrary: a) auto

lemma writer_Write_Buf:
  "p + length c \<le> length d \<Longrightarrow>
   writer_Write (BufWriter d p) c =
     Inr (BufWriter (take p d @ c @ drop (p + length c) d) (p + length c))"
  by simp

lemma writer_Writes_Buf:
  "p + length (concat cs) \<le> length d \<Longrightarrow>
   writer_Writes (BufWriter d p) cs =
     Inr (BufWriter (take p d @ concat cs @ drop (p + length (concat cs)) d)
                    (p + length (concat cs)))"
proof (induction cs arbitrary: d p)
  case Nil
  then show ?case by simp
next
  case (Cons c cs)
  let ?d = "take p d @ c @ drop (p + length c) d"
  have l: "length ?d = length d" using Cons.prems by simp
  have a: "(p + length c) + length (concat cs) \<le> length ?d" using Cons.prems l by simp
  have t: "take (p + length c) ?d = take p d @ c" using Cons.prems by simp
  have dr: "drop (p + length c + length (concat cs)) ?d =
            drop (p + length c + length (concat cs)) d"
    using Cons.prems by (simp add: ac_simps)
  have "writer_Writes (BufWriter d p) (c # cs) = writer_Writes (BufWriter ?d (p + length c)) cs"
    using Cons.prems by simp
  also have "\<dots> = Inr (BufWriter (take (p + length c) ?d @ concat cs @
                      drop (p + length c + length (concat cs)) ?d)
                      (p + length c + length (concat cs)))"
    by (rule Cons.IH[OF a])
  finally show ?case unfolding t dr by (simp add: add.assoc)
qed

lemma writer_Write_Buf_after:
  assumes "length pre + length v \<le> length d"
  shows "writer_Write (BufWriter (pre @ drop (length pre) d) (length pre)) v =
         Inr (BufWriter ((pre @ v) @ drop (length (pre @ v)) d) (length (pre @ v)))"
proof -
  have "drop (length pre + length v) (pre @ drop (length pre) d) = drop (length v + length pre) d"
    by (simp add: ac_simps)
  then show ?thesis using assms by (simp add: ac_simps)
qed

lemma concat_singletons: "concat (map (\<lambda>b. [b]) xs) = xs"
  by (induction xs) auto

lemma completeLeafHash_result:
  assumes "ToDoubleRLP val = Inr v"
    and "length kp + kl + DoubleRLPLen val +
           length (GenerateStructLen (length kp + kl + DoubleRLPLen val)) < HashLength \<longrightarrow>
         length (leaf_stream kp kl cl key c0 ni (DoubleRLPLen val) v) \<le> length (hashBuf hb)"
  shows "completeLeafHash hb kp kl cl key c0 ni val =
     Inr (hb\<lparr>hashBuf :=
            (let st = leaf_stream kp kl cl key c0 ni (DoubleRLPLen val) v in
             if length kp + kl + DoubleRLPLen val +
                length (GenerateStructLen (length kp + kl + DoubleRLPLen val)) < HashLength
             then st @ drop (length st) (hashBuf hb)
             else 0xa0 # keccak256 st)\<rparr>)"
proof -
  let ?tl = "length kp + kl + DoubleRLPLen val"
  let ?cs = "[GenerateStructLen ?tl, kp, [c0]] @ map (\<lambda>b. [b]) (compactTail key ni (cl - 1))"
  let ?st = "leaf_stream kp kl cl key c0 ni (DoubleRLPLen val) v"
  have st: "?st = concat ?cs @ v" by (simp add: leaf_stream_def concat_singletons)
  show ?thesis
  proof (cases "?tl + length (GenerateStructLen ?tl) < HashLength")
    case True
    then have l: "length (concat ?cs) + length v \<le> length (hashBuf hb)"
      using assms(2) st by simp
    then have l0: "0 + length (concat ?cs) \<le> length (hashBuf hb)" by simp
    have w: "writer_Writes (BufWriter (hashBuf hb) 0) ?cs =
          Inr (BufWriter (concat ?cs @ drop (length (concat ?cs)) (hashBuf hb)) (length (concat ?cs)))"
      using writer_Writes_Buf[OF l0] by simp
    have w2: "writer_Write (BufWriter (concat ?cs @ drop (length (concat ?cs)) (hashBuf hb))
                 (length (concat ?cs))) v =
          Inr (BufWriter (?st @ drop (length ?st) (hashBuf hb)) (length ?st))"
      unfolding st using writer_Write_Buf_after[OF l] by simp
    have e: "(?tl + length (GenerateStructLen ?tl) < HashLength) = True" using True by simp
    show ?thesis
      unfolding completeLeafHash_def Let_def e if_True w sum.case assms(1) w2 writer.case
      by (rule refl)
  next
    case False
    have w: "writer_Writes (ShaWriter []) ?cs = Inr (ShaWriter (concat ?cs))"
      using writer_Writes_Sha[of "[]" ?cs] by simp
    have e: "(?tl + length (GenerateStructLen ?tl) < HashLength) = False" using False by simp
    have w2: "writer_Write (ShaWriter (concat ?cs)) v = Inr (ShaWriter ?st)"
      unfolding st by simp
    have c: "(0x80 + of_nat HashLength :: byte) = 0xa0" by simp
    show ?thesis
      unfolding completeLeafHash_def Let_def e if_False w sum.case assms(1) w2 writer.case c
      by (rule refl)
  qed
qed

lemma compactTail_pack:
  "ni + 2 * n \<le> length key \<Longrightarrow>
   compactTail key ni n = pack_nibbles (take (2 * n) (drop ni key))"
proof (induction n arbitrary: ni)
  case 0
  then show ?case by simp
next
  case (Suc n)
  then have a: "ni < length key" "Suc ni < length key" by simp_all
  have d: "drop ni key = key ! ni # key ! (ni + 1) # drop (ni + 2) key"
    using a by (simp add: Cons_nth_drop_Suc)
  have "ni + 2 + 2 * n \<le> length key" using Suc.prems by simp
  from Suc.IH[OF this] show ?case unfolding d by simp
qed

lemma pack_nibbles_length: "length (pack_nibbles xs) = length xs div 2"
  by (induction xs rule: pack_nibbles.induct) auto

lemma compact_encode_length:
  "length (compact_encode nibbles t) = length nibbles div 2 + 1"
  by (cases nibbles) (auto simp: compact_encode_def Let_def pack_nibbles_length elim: oddE)

lemma nibble_small: "(x::byte) < 16 \<Longrightarrow> 48 + x < 128"
  by (simp add: word_less_nat_alt unat_word_ariths)

lemma compactKey_term:
  assumes "key = nibbles @ [16]" and "\<forall>x\<in>set nibbles. x < 16"
    and "length nibbles div 2 + 1 < 56"
  shows "\<exists>kp kl cl c0 ni.
           compactKey key = (kp, kl, cl, c0, ni) \<and>
           kp @ [c0] @ compactTail key ni (cl - 1) = rlp_string (compact_encode nibbles True) \<and>
           length kp + kl = length (rlp_string (compact_encode nibbles True))"
proof -
  let ?m = "length nibbles div 2"
  let ?C = "compact_encode nibbles True"
  have ht: "hasTerm key" using assms(1) by (simp add: hasTerm_def)
  have lk: "length key = length nibbles + 1" using assms(1) by simp
  have cl: "(length key - 1) div 2 + 1 = ?m + 1" using lk by simp
  define c0 :: byte where "c0 = (if even (length key) then 0x30 + key ! 0 else 0x20)"
  define ni :: nat where "ni = (if even (length key) then 1 else 0)"
  have C: "c0 # compactTail key ni ?m = ?C"
  proof (cases "odd (length nibbles)")
    case True
    then obtain x xs where n: "nibbles = x # xs" by (cases nibbles) auto
    have e: "even (length key)" using True lk by simp
    have l2: "2 * ?m = length xs" using True n by (auto elim: oddE)
    have "compactTail key 1 ?m = pack_nibbles (take (2 * ?m) (drop 1 key))"
      by (rule compactTail_pack) (use l2 lk n in simp)
    also have "\<dots> = pack_nibbles xs" using l2 assms(1) n by simp
    finally show ?thesis
      using True e n assms(1) by (simp add: c0_def ni_def compact_encode_def)
  next
    case False
    have e: "odd (length key)" using False lk by simp
    have l2: "2 * ?m = length nibbles" using False by simp
    have "compactTail key 0 ?m = pack_nibbles (take (2 * ?m) (drop 0 key))"
      by (rule compactTail_pack) (use l2 lk in simp)
    also have "\<dots> = pack_nibbles nibbles" using l2 assms(1) by simp
    finally show ?thesis
      using False e by (simp add: c0_def ni_def compact_encode_def)
  qed
  have lC: "length ?C = ?m + 1" by (rule compact_encode_length)
  show ?thesis
  proof (cases "?m + 1 > 1")
    case True
    have ck: "compactKey key = ([0x80 + of_nat (?m + 1)], ?m + 1, ?m + 1, c0, ni)"
      using ht True cl by (simp add: compactKey_def c0_def ni_def Let_def)
    have r: "rlp_string ?C = [0x80 + of_nat (?m + 1)] @ ?C"
      using True lC assms(3) by (simp add: rlp_string_def rlp_header_def)
    show ?thesis using ck r C lC by simp
  next
    case False
    then have m0: "?m = 0" by simp
    have ck: "compactKey key = ([], 1, 1, c0, ni)"
      using ht m0 cl by (simp add: compactKey_def c0_def ni_def Let_def)
    have "c0 < 0x80"
    proof (cases "even (length key)")
      case True
      then obtain x xs where n: "nibbles = x # xs" using lk by (cases nibbles) auto
      then have "x < 16" using assms(2) by simp
      then show ?thesis using True n assms(1) nibble_small[of x] by (simp add: c0_def)
    next
      case False
      then show ?thesis by (simp add: c0_def)
    qed
    moreover have "?C = [c0]" using C m0 by simp
    ultimately have r: "rlp_string ?C = ?C" by (simp add: rlp_string_def)
    show ?thesis using ck r C m0 lC by simp
  qed
qed

lemma leafHashWithKeyVal_term:
  assumes "key = nibbles @ [16]" and "\<forall>x\<in>set nibbles. x < 16"
    and "length nibbles div 2 + 1 < 56"
    and "ToDoubleRLP val = Inr v" and "DoubleRLPLen val = length v"
    and "length v + 56 < 16777216"
    and "length (hashBuf hb) = 33"
  shows "leafHashWithKeyVal hb key val =
     (let R = leaf_rlp nibbles v;
          slot = (if length R < 32 then R @ drop (length R) (hashBuf hb) else 0xa0 # keccak256 R);
          hb2 = hb\<lparr>hashBuf := slot,
                   dataLenStack := dataLenStack hb @
                      [of_nat (length (RawBytes val)) + 1 + of_nat (length key) div 2],
                   hashStack := hashStack hb @ slot\<rparr>
      in Inr (if length (hashStack hb2) > hashStackStride * length (nodeStack hb2)
              then hb2\<lparr>nodeStack := nodeStack hb2 @ [NilNode]\<rparr> else hb2))"
proof -
  let ?C = "rlp_string (compact_encode nibbles True)"
  obtain kp kl cl c0 ni where
    ck: "compactKey key = (kp, kl, cl, c0, ni)" and
    cs: "kp @ [c0] @ compactTail key ni (cl - 1) = ?C" and
    cn: "length kp + kl = length ?C"
    using compactKey_term[OF assms(1-3)] by blast
  let ?T = "length ?C + length v"
  have lC: "length ?C \<le> 56"
    using assms(3) compact_encode_length[of nibbles True]
    by (auto simp: rlp_string_def rlp_header_def)
  have T: "?T < 16777216" using lC assms(6) by simp
  have tl: "length kp + kl + DoubleRLPLen val = ?T" using cn assms(5) by simp
  have st: "leaf_stream kp kl cl key c0 ni (DoubleRLPLen val) v = leaf_rlp nibbles v"
    unfolding leaf_stream_def tl leaf_rlp_def rlp_list_def
    using cs GenerateStructLen_rlp[OF T] by simp
  have lR: "length (leaf_rlp nibbles v) = length (GenerateStructLen ?T) + ?T"
    unfolding leaf_rlp_def rlp_list_def using GenerateStructLen_rlp[OF T] by simp
  have em: "(length kp + kl + DoubleRLPLen val +
             length (GenerateStructLen (length kp + kl + DoubleRLPLen val)) < HashLength) =
            (length (leaf_rlp nibbles v) < 32)"
    unfolding tl lR by auto
  have fit: "length kp + kl + DoubleRLPLen val +
           length (GenerateStructLen (length kp + kl + DoubleRLPLen val)) < HashLength \<longrightarrow>
         length (leaf_stream kp kl cl key c0 ni (DoubleRLPLen val) v) \<le> length (hashBuf hb)"
    unfolding em st using assms(7) by simp
  note r = completeLeafHash_result[OF assms(4) fit, unfolded em st]
  show ?thesis
    unfolding leafHashWithKeyVal_def ck prod.case Let_def r sum.case
    by simp
qed

text \<open>
  C2. For \<open>LEAF(key, value)\<close> with a terminated key of nibbles (its compact encoding
  shorter than 56 bytes, as for every key of at most 109 nibbles) and a value that writes
  as many bytes as it announces: if the serialized RLP of the short node
  \<open>[compact(key, term = true), value]\<close> is strictly shorter than 32 bytes, the 33-byte
  slot pushed on the hash stack begins with that whole RLP, its list header being the first
  byte of the slot (the rest of the slot is what the buffer held before); otherwise the
  slot is the byte \<open>0x80 + 32\<close> followed by the Keccak-256 of that RLP.
\<close>

theorem leaf_slot:
  assumes "stacks_synced hb" and "arrays_ok hb"
    and "keyHex = pre @ nibbles @ [16]" and "len = int (length nibbles) + 1"
    and "\<forall>x\<in>set nibbles. x < 16" and "length nibbles div 2 + 1 < 56"
    and "ToDoubleRLP val = Inr v" and "DoubleRLPLen val = length v"
    and "length v + 56 < 16777216"
  shows "case leaf hb len keyHex val of
           Inl e \<Rightarrow> False
         | Inr hb' \<Rightarrow>
            (let R = leaf_rlp nibbles v;
                 slot = drop (length (hashStack hb)) (hashStack hb')
             in take (length (hashStack hb)) (hashStack hb') = hashStack hb \<and>
                length slot = 33 \<and>
                (if length R < 32
                 then take (length R) slot = R \<and>
                      slot ! 0 = 0xc0 + of_nat (length R - 1) \<and>
                      drop (length R) slot = drop (length R) (hashBuf hb)
                 else slot = [0x80 + 32] @ keccak256 R))"
proof -
  let ?key = "nibbles @ [16]"
  let ?R = "leaf_rlp nibbles v"
  let ?slot = "if length ?R < 32 then ?R @ drop (length ?R) (hashBuf hb) else 0xa0 # keccak256 ?R"
  have k: "drop (length keyHex - nat len) keyHex = ?key" using assms(3,4) by simp
  have l: "\<not> len < 0" "\<not> nat len > length keyHex" using assms(3,4) by simp_all
  let ?s = "shortNode ?key (valueNode (RawBytes val)) (replicate 32 0) 0 0"
  let ?hb0 = "hb\<lparr>nodeStack := nodeStack hb @ [?s]\<rparr>"
  have hbuf: "length (hashBuf ?hb0) = 33" using assms(2) by (simp add: arrays_ok_def)
  note lh = leafHashWithKeyVal_term[OF refl assms(5,6,7,8,9) hbuf]
  have sl: "length ?slot = 33" using assms(2) by (simp add: arrays_ok_def keccak256_length)
  let ?hb2 = "?hb0\<lparr>hashBuf := ?slot,
                dataLenStack := dataLenStack ?hb0 @
                      [of_nat (length (RawBytes val)) + 1 + of_nat (length ?key) div 2],
                hashStack := hashStack ?hb0 @ ?slot\<rparr>"
  have sy: "(length (hashStack ?hb2) > hashStackStride * length (nodeStack ?hb2)) = False"
    using assms(1) sl by (simp add: stacks_synced_def)
  have lr: "leafHashWithKeyVal ?hb0 ?key val = Inr ?hb2"
    using lh assms(1,2) unfolding Let_def
    by (simp add: keccak256_length stacks_synced_def arrays_ok_def)
  have hd: "length ?R < 32 \<Longrightarrow> ?R ! 0 = 0xc0 + of_nat (length ?R - 1)"
    by (simp add: leaf_rlp_def rlp_list_def rlp_header_def split: if_splits)
  have res: "case leaf hb len keyHex val of
           Inl e \<Rightarrow> False
         | Inr hb' \<Rightarrow> hashStack hb' = hashStack hb @ ?slot"
    unfolding leaf_def Let_def k lr sum.case using l by (simp split: prod.splits)
  show ?thesis
  proof (cases "leaf hb len keyHex val")
    case (Inl e)
    then show ?thesis using res by simp
  next
    case (Inr hb')
    then have h: "hashStack hb' = hashStack hb @ ?slot" using res by simp
    have R0: "length ?R < 32 \<Longrightarrow> ?R \<noteq> []"
      by (simp add: leaf_rlp_def rlp_list_def rlp_header_def)
    show ?thesis
      unfolding Inr sum.case Let_def h
      using sl hd R0 assms(2)
      by (auto simp: nth_append arrays_ok_def)
  qed
qed


section \<open>Concrete runs of LEAF and BRANCH\<close>

lemma demo_leaf_rlp: "leaf_rlp [1, 2] [0x83, 1, 2, 3] = [0xc7, 0x82, 0x20, 0x12, 0x83, 1, 2, 3]"
  by (simp add: leaf_rlp_def rlp_list_def rlp_string_def rlp_header_def compact_encode_def)

lemma demo_leaf_rlp_long: "length (leaf_rlp [1, 2] (0xa0 # demoHash)) = 37"
  by (simp add: leaf_rlp_def rlp_list_def rlp_string_def rlp_header_def compact_encode_def
      demoHash_def)

theorem leaf_slot_witness:
  "stacks_synced NewHashBuilder \<and> arrays_ok NewHashBuilder \<and>
   (1 :: byte) < 16 \<and> (2 :: byte) < 16 \<and>
   ToDoubleRLP demoVal = Inr [0x83, 1, 2, 3] \<and> DoubleRLPLen demoVal = length [0x83, 1, 2, 3 :: byte] \<and>
   leaf_rlp [1, 2] [0x83, 1, 2, 3] = [0xc7, 0x82, 0x20, 0x12, 0x83, 1, 2, 3] \<and>
   \<not> isl (leaf NewHashBuilder 3 [1, 2, 16] demoVal) \<and>
   hashStack (projr (leaf NewHashBuilder 3 [1, 2, 16] demoVal)) =
     [0xc7, 0x82, 0x20, 0x12, 0x83, 1, 2, 3] @ replicate 25 0 \<and>
   \<not> isl (leaf NewHashBuilder 3 [1, 2, 16] demoLongVal) \<and>
   hashStack (projr (leaf NewHashBuilder 3 [1, 2, 16] demoLongVal)) =
     [0xa0] @ keccak256 (leaf_rlp [1, 2] (0xa0 # demoHash))"
proof -
  have n: "\<forall>x\<in>set [1, 2 :: byte]. x < 16" by simp
  have v: "ToDoubleRLP demoVal = Inr [0x83, 1, 2, 3]"
          "DoubleRLPLen demoVal = length [0x83, 1, 2, 3 :: byte]"
    by (simp_all add: demoVal_def)
  have vl: "ToDoubleRLP demoLongVal = Inr (0xa0 # demoHash)"
          "DoubleRLPLen demoLongVal = length (0xa0 # demoHash)"
    by (simp_all add: demoLongVal_def demoHash_def)
  have k: "[1, 2, 16 :: byte] = [] @ [1, 2] @ [16]" "(3::int) = int (length [1, 2 :: byte]) + 1"
          "length [1, 2 :: byte] div 2 + 1 < 56" "length [0x83, 1, 2, 3 :: byte] + 56 < 16777216"
          "length (0xa0 # demoHash) + 56 < 16777216"
    by (simp_all add: demoHash_def)
  have s: "stacks_synced NewHashBuilder" "arrays_ok NewHashBuilder"
    using NewHashBuilder_ok by simp_all
  note a = leaf_slot[OF s k(1,2) n k(3) v k(4)]
  note b = leaf_slot[OF s k(1,2) n k(3) vl k(5)]
  have hs: "hashStack NewHashBuilder = []" "hashBuf NewHashBuilder = replicate 33 0"
    by (simp_all add: NewHashBuilder_def)
  have a1: "\<not> isl (leaf NewHashBuilder 3 [1, 2, 16] demoVal)"
    using a by (cases "leaf NewHashBuilder 3 [1, 2, 16] demoVal") simp_all
  have b1: "\<not> isl (leaf NewHashBuilder 3 [1, 2, 16] demoLongVal)"
    using b by (cases "leaf NewHashBuilder 3 [1, 2, 16] demoLongVal") simp_all
  have a2: "hashStack (projr (leaf NewHashBuilder 3 [1, 2, 16] demoVal)) =
     [0xc7, 0x82, 0x20, 0x12, 0x83, 1, 2, 3] @ replicate 25 0"
  proof (cases "leaf NewHashBuilder 3 [1, 2, 16] demoVal")
    case (Inl e)
    then show ?thesis using a by simp
  next
    case (Inr hb')
    let ?h = "hashStack hb'"
    define L :: bytes where "L = [0xc7, 0x82, 0x20, 0x12, 0x83, 1, 2, 3]"
    have lL: "length L < 32" "length L = 8" by (simp_all add: L_def)
    have "take (length L) ?h = L \<and> drop (length L) ?h = drop (length L) (replicate 33 0)"
      using a lL(1) unfolding Inr sum.case Let_def hs demo_leaf_rlp L_def[symmetric] by simp
    then have "take (length L) ?h @ drop (length L) ?h = L @ drop (length L) (replicate 33 0)"
      by simp
    then have "?h = L @ replicate 25 0" unfolding append_take_drop_id lL(2) by simp
    then show ?thesis unfolding Inr L_def by simp
  qed
  have b2: "hashStack (projr (leaf NewHashBuilder 3 [1, 2, 16] demoLongVal)) =
     [0xa0] @ keccak256 (leaf_rlp [1, 2] (0xa0 # demoHash))"
    using b demo_leaf_rlp_long unfolding Let_def hs
    by (cases "leaf NewHashBuilder 3 [1, 2, 16] demoLongVal") simp_all
  show ?thesis using s v demo_leaf_rlp a1 a2 b1 b2 by simp
qed

lemma demoTwo_slots:
  "\<forall>k < OnesCount16 3.
     slot_ok (slot_at (drop (length (hashStack demoTwo) - hashStackStride * OnesCount16 3)
                            (hashStack demoTwo)) k)"
proof -
  have "slot_ok (slot_at (hashStack demoTwo) 0)" "slot_ok (slot_at (hashStack demoTwo) 1)"
    by (simp_all add: demoTwo_eq slot_ok_def slot_at_def demoHash_def nth_append)
  moreover have "\<And>k. k < 2 \<Longrightarrow> k = 0 \<or> k = (1::nat)" by auto
  ultimately show ?thesis unfolding OnesCount16_3
    by (auto simp: demoTwo_eq demoHash_def)
qed

theorem branch_builds_list_witness:
  "stacks_synced demoTwo \<and> 0 < OnesCount16 3 \<and> OnesCount16 3 \<le> length (dataLenStack demoTwo) \<and>
   OnesCount16 3 = 2 \<and>
   branch_items 3 (hashStack demoTwo) ! 0 = 0xa0 # demoHash \<and>
   branch_items 3 (hashStack demoTwo) ! 1 = 0xa0 # demoHash \<and>
   branch_items 3 (hashStack demoTwo) ! 2 = [0x80] \<and>
   branch_items 3 (hashStack demoTwo) ! 16 = [0x80] \<and>
   length (branch_items 3 (hashStack demoTwo)) = 17 \<and>
   \<not> isl (branch demoTwo 3) \<and>
   hashStack (projr (branch demoTwo 3)) =
     [0xa0] @ keccak256 (rlp_list (branch_items 3 (hashStack demoTwo))) \<and>
   length (nodeStack (projr (branch demoTwo 3))) = 1 \<and>
   length (dataLenStack (projr (branch demoTwo 3))) = 1"
proof -
  have s: "stacks_synced demoTwo" using demoTwo_ok by simp
  have c: "0 < OnesCount16 3" "OnesCount16 3 \<le> length (dataLenStack demoTwo)"
    by (simp_all add: OnesCount16_3 demoTwo_eq)
  note t = branch_builds_list[OF s c demoTwo_slots, unfolded Let_def]
  have p: "drop (length (hashStack demoTwo) - hashStackStride * OnesCount16 3) (hashStack demoTwo)
           = hashStack demoTwo"
    by (simp add: OnesCount16_3 demoTwo_eq demoHash_def)
  have b: "bit (3 :: 16 word) 0" "bit (3 :: 16 word) 1" "\<not> bit (3 :: 16 word) 2" by simp_all
  have i0: "branch_items 3 (hashStack demoTwo) ! 0 = 0xa0 # demoHash"
    using t b unfolding p
    by (simp add: child_rlp_def slot_at_def demoTwo_eq demoHash_def)
  have f1: "filter (bit (3 :: 16 word)) [0..<1] = [0]" using b by simp
  have i1: "branch_items 3 (hashStack demoTwo) ! 1 = 0xa0 # demoHash"
    using t b f1 unfolding p
    by (simp add: child_rlp_def slot_at_def demoTwo_eq demoHash_def nth_append)
  have i2: "branch_items 3 (hashStack demoTwo) ! 2 = [0x80]"
    using t b unfolding p by simp
  have r: "\<not> isl (branch demoTwo 3)"
    using t by (cases "branch demoTwo 3") simp_all
  have h: "hashStack (projr (branch demoTwo 3)) =
     [0xa0] @ keccak256 (rlp_list (branch_items 3 (hashStack demoTwo))) \<and>
   length (nodeStack (projr (branch demoTwo 3))) = 1 \<and>
   length (dataLenStack (projr (branch demoTwo 3))) = 1"
    using t unfolding p
    by (cases "branch demoTwo 3") (simp_all add: OnesCount16_3 demoTwo_eq demoHash_def)
  have i16: "branch_items 3 (hashStack demoTwo) ! 16 = [0x80]"
    using t unfolding p by blast
  have l17: "length (branch_items 3 (hashStack demoTwo)) = 17"
    using t unfolding p by blast
  show ?thesis using s c i0 i1 i2 i16 l17 r h OnesCount16_3 by simp
qed

text \<open>
  C5 as stated fails for the empty mask: its popcount is 0 and every stack holds at least
  0 slots, yet \<open>BRANCH(0)\<close> ends in a run-time panic instead of pushing a slot.
\<close>

theorem branch_empty_mask_counterexample:
  "OnesCount16 0 = 0 \<and> stacks_synced NewHashBuilder \<and>
   OnesCount16 0 \<le> length (dataLenStack NewHashBuilder) \<and>
   branch NewHashBuilder 0 = Inl Panic \<and>
   stacks_synced demoTwo \<and> OnesCount16 0 \<le> length (dataLenStack demoTwo) \<and>
   branch demoTwo 0 = Inl Panic"
proof -
  have z: "OnesCount16 0 = 0" by (simp add: OnesCount16_def digits16_def bit_set_def)
  show ?thesis using NewHashBuilder_ok demoTwo_ok z by (simp add: branch_def)
qed


section \<open>Account encodings round-trip on accounts in normal form\<close>

lemma be_nat_snoc: "be_nat (bs @ [b]) = be_nat bs * 256 + unat b"
  by simp

lemma be_nat_be_bytes: "be_nat (be_bytes n) = n"
proof (induction n rule: be_bytes.induct)
  case (1 n)
  show ?case
  proof (cases "n = 0")
    case True
    then show ?thesis by (simp add: be_bytes.simps[of 0])
  next
    case False
    have "unat (of_nat (n mod 256) :: byte) = n mod 256"
      by (simp add: unat_of_nat take_bit_eq_mod)
    then show ?thesis
      using False 1 be_bytes.simps[of n] by (simp del: be_nat.simps add: be_nat_snoc)
  qed
qed

lemma be_bytes_hd: "n \<noteq> 0 \<Longrightarrow> be_bytes n \<noteq> [] \<and> hd (be_bytes n) \<noteq> 0"
proof (induction n rule: be_bytes.induct)
  case (1 n)
  show ?case
  proof (cases "n div 256 = 0")
    case True
    then have "n < 256" by (simp add: div_eq_0_iff)
    then have "be_bytes n = [of_nat n]" using 1(2) be_bytes_1 by simp
    moreover have "(of_nat n :: byte) \<noteq> 0" using \<open>n < 256\<close> 1(2)
      by (simp add: of_nat_0_eq_iff unat_of_nat word_unat_eq_iff take_bit_eq_mod)
    ultimately show ?thesis by simp
  next
    case False
    then have "be_bytes (n div 256) \<noteq> [] \<and> hd (be_bytes (n div 256)) \<noteq> 0"
      using 1 by simp
    then show ?thesis using 1(2) be_bytes.simps[of n] by simp
  qed
qed

lemma unat_byte_of_nat: "n < 256 \<Longrightarrow> unat (of_nat n :: byte) = n"
  by (simp add: unat_of_nat take_bit_eq_mod)

lemma unat_byte_add: "a + n < 256 \<Longrightarrow> unat (of_nat a + of_nat n :: byte) = a + n"
  using unat_byte_of_nat[of "a + n"] by simp

lemma rlp_split_string_short:
  assumes "length bs < 56"
  shows "rlp_split (rlp_string bs @ rest) = Inr (RlpString, bs, rest)"
proof (cases "length bs = 1 \<and> hd bs < 0x80")
  case True
  then obtain b where b: "bs = [b]" "b < 0x80" by (cases bs) auto
  then have "unat b < 0x80" by (simp add: word_less_nat_alt)
  then show ?thesis using b by (simp add: rlp_string_def rlp_split_def)
next
  case False
  have u: "unat (128 + of_nat (length bs) :: byte) = 128 + length bs"
    using assms unat_byte_add[of 128 "length bs"] by simp
  have c: "\<not> (length bs = 1 \<and> hd (bs @ rest) < 0x80)"
    using False by (cases bs) auto
  have rs: "rlp_string bs = (128 + of_nat (length bs)) # bs"
    using False assms by (auto simp: rlp_string_def rlp_header_def)
  have h: "length bs = 1 \<Longrightarrow> \<not> hd (bs @ rest) < 0x80" using c by simp
  show ?thesis
    unfolding rs using assms u h
    by (auto simp: rlp_split_def Let_def)
qed

lemma be_bytes_length: "n < 256 ^ k \<Longrightarrow> length (be_bytes n) \<le> k"
proof (induction k arbitrary: n)
  case 0
  then show ?case by (simp add: be_bytes.simps[of 0])
next
  case (Suc k)
  show ?case
  proof (cases "n = 0")
    case True
    then show ?thesis by (simp add: be_bytes.simps[of 0])
  next
    case False
    have "n div 256 < 256 ^ k" using Suc.prems by (simp add: less_mult_imp_div_less mult.commute)
    then have "length (be_bytes (n div 256)) \<le> k" by (rule Suc.IH)
    then show ?thesis using False be_bytes.simps[of n] by simp
  qed
qed

lemma be_bytes_0: "be_bytes 0 = []"
  by (simp add: be_bytes.simps[of 0])

lemma be_bytes_canon: "be_bytes n \<noteq> [] \<Longrightarrow> hd (be_bytes n) \<noteq> 0"
  using be_bytes_hd[of n] be_bytes_0 by (cases "n = 0") auto

lemma take_string_rlp:
  "length bs < 56 \<Longrightarrow> take_string (rlp_string bs @ rest) = Inr (bs, rest)"
  by (simp add: take_string_def rlp_split_string_short)

lemma field_uint64_enc: "field_uint64 (enc_uint64 n @ rest) = Inr (n, rest)"
proof -
  have "unat n < 256 ^ 8" using unsigned_less[of n] by simp
  then have l: "length (be_bytes (unat n)) \<le> 8" by (rule be_bytes_length)
  then have "take_string (rlp_string (be_bytes (unat n)) @ rest) = Inr (be_bytes (unat n), rest)"
    by (intro take_string_rlp) simp
  then show ?thesis
    using l be_bytes_canon[of "unat n"]
    by (auto simp: field_uint64_def enc_uint64_def be_nat_be_bytes simp del: be_nat.simps)
qed

lemma field_big_enc:
  "n < 2 ^ 256 \<Longrightarrow> field_big (enc_big n @ rest) = Inr (n, rest)"
proof -
  assume "n < 2 ^ 256"
  then have "n < 256 ^ 32" by simp
  then have l: "length (be_bytes n) \<le> 32" by (rule be_bytes_length)
  then have "take_string (rlp_string (be_bytes n) @ rest) = Inr (be_bytes n, rest)"
    by (intro take_string_rlp) simp
  then show ?thesis
    using be_bytes_canon[of n]
    by (auto simp: field_big_def enc_big_def be_nat_be_bytes simp del: be_nat.simps)
qed

lemma field_uint64_enc0: "field_uint64 (enc_uint64 n) = Inr (n, [])"
  using field_uint64_enc[of n "[]"] by simp

lemma field_big_enc0: "n < 2 ^ 256 \<Longrightarrow> field_big (enc_big n) = Inr (n, [])"
  using field_big_enc[of n "[]"] by simp

lemma field_hash_enc:
  "length h = 32 \<Longrightarrow> field_hash (rlp_string h @ rest) = Inr (h, rest)"
  by (simp add: field_hash_def take_string_rlp)

lemma field_bytes_enc:
  "length h < 56 \<Longrightarrow> field_bytes (rlp_string h @ rest) = Inr (h, rest)"
  by (simp add: field_bytes_def take_string_rlp)

lemma take_list_rlp:
  assumes "length (concat items) < 256"
  shows "take_list (rlp_list items) = Inr (concat items)"
proof -
  let ?L = "length (concat items)"
  show ?thesis
  proof (cases "?L < 56")
    case True
    have "unat (192 + of_nat ?L :: byte) = 192 + ?L"
      using True unat_byte_add[of 192 ?L] by simp
    then show ?thesis using True
      by (simp add: take_list_def rlp_list_def rlp_header_def rlp_split_def Let_def)
  next
    case False
    then have "0 < ?L" by linarith
    then have b: "be_bytes ?L = [of_nat ?L]" using assms by (rule be_bytes_1)
    have u: "unat (of_nat ?L :: byte) = ?L" using assms by (rule unat_byte_of_nat)
    have z: "(of_nat ?L :: byte) \<noteq> 0" using u False by (metis not_less unat_0 zero_less_numeral)
    show ?thesis using False assms b u z
      by (simp add: take_list_def rlp_list_def rlp_header_def rlp_split_def Let_def)
  qed
qed

lemma rlp_string_length: "length bs < 56 \<Longrightarrow> 1 \<le> length (rlp_string bs) \<and> length (rlp_string bs) \<le> length bs + 1"
  by (cases bs) (auto simp: rlp_string_def rlp_header_def)

lemma rlp_string_length32: "length bs = 32 \<Longrightarrow> length (rlp_string bs) = 33"
  by (auto simp: rlp_string_def rlp_header_def)

lemma enc_uint64_length: "1 \<le> length (enc_uint64 n) \<and> length (enc_uint64 n) \<le> 9"
proof -
  have "unat n < 256 ^ 8" using unsigned_less[of n] by simp
  then have "length (be_bytes (unat n)) \<le> 8" by (rule be_bytes_length)
  then show ?thesis using rlp_string_length[of "be_bytes (unat n)"] by (simp add: enc_uint64_def)
qed

lemma enc_big_length: "b < 2 ^ 256 \<Longrightarrow> 1 \<le> length (enc_big b) \<and> length (enc_big b) \<le> 33"
proof -
  assume "b < 2 ^ 256"
  then have "b < 256 ^ 32" by simp
  then have "length (be_bytes b) \<le> 32" by (rule be_bytes_length)
  then show ?thesis using rlp_string_length[of "be_bytes b"] by (simp add: enc_big_def)
qed

lemma rlp_list_length:
  "length (concat items) < 256 \<Longrightarrow>
   length (rlp_list items) =
     (if length (concat items) < 56 then 1 else 2) + length (concat items)"
proof (cases "length (concat items) < 56")
  case True
  then show ?thesis by (simp add: rlp_list_def rlp_header_def)
next
  case False
  assume a: "length (concat items) < 256"
  from False have "0 < length (concat items)" by linarith
  then have "be_bytes (length (concat items)) = [of_nat (length (concat items))]"
    using a by (rule be_bytes_1)
  then show ?thesis using False by (simp add: rlp_list_def rlp_header_def)
qed

lemma decode_fields4_enc:
  assumes "b < 2 ^ 256" and "length r = 32" and "length h = 32"
  shows "decode_fields4 (enc_uint64 n @ enc_big b @ rlp_string r @ rlp_string h @ rest) =
         Inr ((n, b, r, h), rest)"
  using assms
  by (simp add: decode_fields4_def field_uint64_enc field_big_enc field_hash_enc field_bytes_enc)

lemma decode_fields4_enc0:
  assumes "b < 2 ^ 256" and "length r = 32" and "length h = 32"
  shows "decode_fields4 (enc_uint64 n @ enc_big b @ rlp_string r @ rlp_string h) =
         Inr ((n, b, r, h), [])"
  using decode_fields4_enc[OF assms, of n "[]"] by simp

lemma state_emptyRoot_nonzero: "state_emptyRoot \<noteq> replicate 32 0"
proof
  assume "state_emptyRoot = replicate 32 0"
  then have "state_emptyRoot ! 0 = replicate 32 (0::byte) ! 0" by simp
  then show False by (simp add: state_emptyRoot_def)
qed

lemma account_roundtrip_short:
  assumes "account_normal a" and "no_storage_no_code a"
  shows "accountToEncoding a =
           Inr (if a = emptyAccount then [192]
                else rlp_list [enc_uint64 (sNonce a), enc_big (the (sBalance a))])"
    and "a \<noteq> emptyAccount \<Longrightarrow>
           1 < length (rlp_list [enc_uint64 (sNonce a), enc_big (the (sBalance a))]) \<and>
           length (rlp_list [enc_uint64 (sNonce a), enc_big (the (sBalance a))]) < 60"
    and "encodingToAccount (if a = emptyAccount then [192]
                else rlp_list [enc_uint64 (sNonce a), enc_big (the (sBalance a))]) = Inr (Some a)"
proof -
  obtain b where b: "sBalance a = Some b" "b < 2 ^ 256"
    using assms(1) by (auto simp: account_normal_def split: option.splits)
  have ss: "sStorageSize a = None"
    using assms by (simp add: account_normal_def no_storage_no_code_def)
  have ch: "sCodeHash a = Some state_emptyCodeHash" "sRoot a = state_emptyRoot"
    using assms(2) by (simp_all add: no_storage_no_code_def)
  have e: "a = emptyAccount \<longleftrightarrow> b = 0 \<and> sNonce a = 0"
    using b ss ch by (cases a) (auto simp: emptyAccount_def)
  let ?x = "rlp_list [enc_uint64 (sNonce a), enc_big b]"
  show 1: "accountToEncoding a =
           Inr (if a = emptyAccount then [192]
                else rlp_list [enc_uint64 (sNonce a), enc_big (the (sBalance a))])"
    using b ch e by (auto simp: accountToEncoding_def)
  have pl: "2 \<le> length (concat [enc_uint64 (sNonce a), enc_big b])"
           "length (concat [enc_uint64 (sNonce a), enc_big b]) \<le> 42"
    using enc_uint64_length[of "sNonce a"] enc_big_length[OF b(2)] by simp_all
  have lx: "length ?x = 1 + length (concat [enc_uint64 (sNonce a), enc_big b])"
    using pl rlp_list_length[of "[enc_uint64 (sNonce a), enc_big b]"] by simp
  show 2: "a \<noteq> emptyAccount \<Longrightarrow>
           1 < length (rlp_list [enc_uint64 (sNonce a), enc_big (the (sBalance a))]) \<and>
           length (rlp_list [enc_uint64 (sNonce a), enc_big (the (sBalance a))]) < 60"
  proof -
    have "1 < length ?x \<and> length ?x < 60" using lx pl by linarith
    then show ?thesis using b(1) by simp
  qed
  have tl: "take_list ?x = Inr (enc_uint64 (sNonce a) @ enc_big b @ [])"
    using take_list_rlp[of "[enc_uint64 (sNonce a), enc_big b]"] pl by simp
  have d: "decode_ExtAccount ?x = Inr (sNonce a, b)"
    unfolding decode_ExtAccount_def tl
    by (simp add: field_uint64_enc field_big_enc0[OF b(2)])
  show "encodingToAccount (if a = emptyAccount then [192]
                else rlp_list [enc_uint64 (sNonce a), enc_big (the (sBalance a))]) = Inr (Some a)"
  proof (cases "a = emptyAccount")
    case True
    then show ?thesis by (simp add: encodingToAccount_def emptyAccount_def)
  next
    case False
    have "length ?x \<noteq> 0 \<and> length ?x \<noteq> 1 \<and> length ?x < 60" using lx pl by linarith
    then have "encodingToAccount ?x = Inr (Some a)"
      using d b ss ch by (cases a) (simp add: encodingToAccount_def)
    then show ?thesis using False b by simp
  qed
qed

lemma account_roundtrip_full:
  assumes "account_normal a" and "\<not> no_storage_no_code a"
  shows "accountToEncoding a = Inr (full_encoding a)"
    and "60 \<le> length (full_encoding a)"
    and "encodingToAccount (full_encoding a) = Inr (Some a)"
proof -
  obtain b where b: "sBalance a = Some b" "b < 2 ^ 256"
    using assms(1) by (auto simp: account_normal_def split: option.splits)
  obtain h where h: "sCodeHash a = Some h" "length h = 32"
    using assms(1) by (auto simp: account_normal_def split: option.splits)
  have r: "length (sRoot a) = 32" "sRoot a \<noteq> replicate 32 0"
    using assms(1) by (simp_all add: account_normal_def)
  have z: "sStorageSize a \<noteq> Some 0" using assms(1) by (simp add: account_normal_def)
  have c: "\<not> (h = state_emptyCodeHash \<and> sRoot a = state_emptyRoot)"
    using assms(2) h by (simp add: no_storage_no_code_def)
  let ?n = "enc_uint64 (sNonce a)"
  let ?b = "enc_big b"
  let ?r = "rlp_string (sRoot a)"
  let ?h = "rlp_string h"
  note ln = enc_uint64_length[of "sNonce a"]
  note lb = enc_big_length[OF b(2)]
  have lr: "length ?r = 33" "length ?h = 33" using r h by (simp_all add: rlp_string_length32)
  show 1: "accountToEncoding a = Inr (full_encoding a)"
    using b h r z c
    by (cases "sStorageSize a") (auto simp: accountToEncoding_def full_encoding_def Let_def)
  have both: "60 \<le> length (full_encoding a) \<and> encodingToAccount (full_encoding a) = Inr (Some a)"
  proof (cases "sStorageSize a")
    case None
    let ?items = "[?n, ?b, ?r, ?h]"
    have fe: "full_encoding a = rlp_list ?items" using None b h by (simp add: full_encoding_def)
    have pl: "68 \<le> length (concat ?items)" "length (concat ?items) < 256"
      using ln lb lr by simp_all
    have lx: "60 \<le> length (rlp_list ?items)"
      using rlp_list_length[OF pl(2)] pl(1) by (simp split: if_splits)
    have tl: "take_list (rlp_list ?items) = Inr (?n @ ?b @ ?r @ ?h @ [])"
      using take_list_rlp[OF pl(2)] by simp
    have d: "decode_Account (rlp_list ?items) = Inr (sNonce a, b, sRoot a, h)"
      unfolding decode_Account_def tl
      by (simp add: decode_fields4_enc0[OF b(2) r(1) h(2)])
    have ne0: "rlp_list ?items \<noteq> []" "length (rlp_list ?items) \<noteq> 1"
              "\<not> length (rlp_list ?items) < 60"
      using lx by auto
    have "encodingToAccount (rlp_list ?items) = Inr (Some a)"
      using ne0 d b h None by (cases a) (simp add: encodingToAccount_def)
    then show ?thesis using fe lx by simp
  next
    case (Some sz)
    let ?items = "[?n, ?b, ?r, ?h, enc_uint64 sz]"
    have fe: "full_encoding a = rlp_list ?items" using Some b h by (simp add: full_encoding_def)
    note ls = enc_uint64_length[of sz]
    have pl: "68 \<le> length (concat ?items)" "length (concat ?items) < 256"
      using ln lb lr ls by simp_all
    have lx: "60 \<le> length (rlp_list ?items)"
      using rlp_list_length[OF pl(2)] pl(1) by (simp split: if_splits)
    have tl: "take_list (rlp_list ?items) = Inr (?n @ ?b @ ?r @ ?h @ enc_uint64 sz)"
      using take_list_rlp[OF pl(2)] by simp
    have ne: "enc_uint64 sz \<noteq> []" using ls by auto
    have d4: "decode_Account (rlp_list ?items) = Inl ErrTooManyElements"
      unfolding decode_Account_def tl
      using ne by (simp add: decode_fields4_enc[OF b(2) r(1) h(2)])
    have d5: "decode_accounts_Account (rlp_list ?items) =
        Inr \<lparr>sNonce = sNonce a, sBalance = Some b, sRoot = sRoot a, sCodeHash = Some h,
             sStorageSize = Some sz\<rparr>"
      unfolding decode_accounts_Account_def tl
      by (simp add: decode_fields4_enc[OF b(2) r(1) h(2)] field_uint64_enc0)
    have ne0: "rlp_list ?items \<noteq> []" "length (rlp_list ?items) \<noteq> 1"
              "\<not> length (rlp_list ?items) < 60"
      using lx by auto
    have "encodingToAccount (rlp_list ?items) = Inr (Some a)"
      using ne0 d4 d5 b h Some by (cases a) (simp add: encodingToAccount_def)
    then show ?thesis using fe lx by simp
  qed
  show "60 \<le> length (full_encoding a)" using both by simp
  show "encodingToAccount (full_encoding a) = Inr (Some a)" using both by simp
qed

text \<open>
  C8 (as amended): for every account in normal form, \<open>accountToEncoding\<close> succeeds with one
  of three shapes: the single byte \<open>0xc0\<close> for the empty account, the list of nonce and
  balance, between 2 and 59 bytes long, for an account with the empty root and the empty
  code hash, and the full list of at least 60 bytes otherwise. \<open>encodingToAccount\<close> of that
  encoding gives the account back, and encoding the decoded account gives the encoding back.
\<close>

theorem account_encoding_roundtrip:
  assumes "account_normal a"
  shows "accountToEncoding a =
           Inr (if a = emptyAccount then [0xc0]
                else if no_storage_no_code a
                then rlp_list [enc_uint64 (sNonce a), enc_big (the (sBalance a))]
                else full_encoding a) \<and>
         (a \<noteq> emptyAccount \<and> no_storage_no_code a \<longrightarrow>
            1 < length (rlp_list [enc_uint64 (sNonce a), enc_big (the (sBalance a))]) \<and>
            length (rlp_list [enc_uint64 (sNonce a), enc_big (the (sBalance a))]) < 60) \<and>
         (\<not> no_storage_no_code a \<longrightarrow> 60 \<le> length (full_encoding a)) \<and>
         (case accountToEncoding a of
            Inl e \<Rightarrow> False
          | Inr x \<Rightarrow>
              encodingToAccount x = Inr (Some a) \<and>
              (case encodingToAccount x of
                 Inr (Some a') \<Rightarrow> accountToEncoding a' = Inr x
               | _ \<Rightarrow> False))"
proof (cases "no_storage_no_code a")
  case True
  note s = account_roundtrip_short[OF assms True]
  show ?thesis using True s by (simp split: if_splits)
next
  case False
  then have ne: "a \<noteq> emptyAccount"
    by (auto simp: no_storage_no_code_def emptyAccount_def)
  note f = account_roundtrip_full[OF assms False]
  show ?thesis using False ne f by simp
qed

lemma demo_enc_small:
  "enc_uint64 1 = [1]" "enc_big 5 = [5]" "enc_big 0 = [0x80]"
proof -
  have "be_bytes 1 = [1]" using be_bytes_1[of 1] by simp
  then show "enc_uint64 1 = [1]" by (simp add: enc_uint64_def rlp_string_def)
  have "be_bytes 5 = [5]" using be_bytes_1[of 5] by simp
  then show "enc_big 5 = [5]" by (simp add: enc_big_def rlp_string_def)
  show "enc_big 0 = [0x80]" by (simp add: enc_big_def rlp_string_def rlp_header_def be_bytes_0)
qed

lemma demo_shortEnc: "rlp_list [enc_uint64 1, enc_big 5] = [0xc2, 1, 5]"
  by (simp add: rlp_list_def rlp_header_def demo_enc_small)

text \<open>
  The round trip on an account with nonce 1 and balance 5, whose encoding is \<open>c2 01 05\<close>,
  and on an account with storage, code and a storage size.
\<close>

theorem account_encoding_roundtrip_witness:
  "account_normal demoShortAccount \<and>
   accountToEncoding demoShortAccount = Inr [0xc2, 1, 5] \<and>
   encodingToAccount [0xc2, 1, 5] = Inr (Some demoShortAccount) \<and>
   account_normal demoFullAccount \<and>
   accountToEncoding demoFullAccount = Inr (full_encoding demoFullAccount) \<and>
   encodingToAccount (full_encoding demoFullAccount) = Inr (Some demoFullAccount)"
proof -
  have r: "state_emptyRoot \<noteq> replicate 32 0" by (rule state_emptyRoot_nonzero)
  have n1: "account_normal demoShortAccount"
    using r by (simp add: account_normal_def demoShortAccount_def keccak256_length
        state_emptyCodeHash_def) (simp add: state_emptyRoot_def)
  have "replicate 32 (1::byte) ! 0 \<noteq> replicate 32 (0::byte) ! 0" by simp
  then have r1: "replicate 32 (1::byte) \<noteq> replicate 32 0" by metis
  have "replicate 32 (1::byte) ! 0 \<noteq> state_emptyRoot ! 0" by (simp add: state_emptyRoot_def)
  then have r2: "replicate 32 (1::byte) \<noteq> state_emptyRoot" by metis
  have n2: "account_normal demoFullAccount"
    using r1 r2 by (simp add: account_normal_def demoFullAccount_def)
  have s1: "no_storage_no_code demoShortAccount"
    by (simp add: no_storage_no_code_def demoShortAccount_def)
  have s2: "\<not> no_storage_no_code demoFullAccount"
    using r2 by (simp add: no_storage_no_code_def demoFullAccount_def)
  have e1: "demoShortAccount \<noteq> emptyAccount"
    by (simp add: demoShortAccount_def emptyAccount_def)
  have e2: "demoFullAccount \<noteq> emptyAccount"
    by (simp add: demoFullAccount_def emptyAccount_def)
  have x1: "rlp_list [enc_uint64 (sNonce demoShortAccount),
                      enc_big (the (sBalance demoShortAccount))] = [0xc2, 1, 5]"
    using demo_shortEnc by (simp add: demoShortAccount_def)
  note t1 = account_encoding_roundtrip[OF n1]
  note t2 = account_encoding_roundtrip[OF n2]
  have a1: "accountToEncoding demoShortAccount = Inr [0xc2, 1, 5]"
    using t1 s1 e1 x1 by simp
  have a2: "accountToEncoding demoFullAccount = Inr (full_encoding demoFullAccount)"
    using t2 s2 e2 by simp
  have c1: "case accountToEncoding demoShortAccount of
            Inl e \<Rightarrow> False
          | Inr x \<Rightarrow> encodingToAccount x = Inr (Some demoShortAccount) \<and>
              (case encodingToAccount x of
                 Inr (Some a') \<Rightarrow> accountToEncoding a' = Inr x
               | _ \<Rightarrow> False)"
    using t1 by blast
  have c2: "case accountToEncoding demoFullAccount of
            Inl e \<Rightarrow> False
          | Inr x \<Rightarrow> encodingToAccount x = Inr (Some demoFullAccount) \<and>
              (case encodingToAccount x of
                 Inr (Some a') \<Rightarrow> accountToEncoding a' = Inr x
               | _ \<Rightarrow> False)"
    using t2 by blast
  have b1: "encodingToAccount [0xc2, 1, 5] = Inr (Some demoShortAccount)"
    using c1[unfolded a1] by simp
  have b2: "encodingToAccount (full_encoding demoFullAccount) = Inr (Some demoFullAccount)"
    using c2[unfolded a2] by simp
  show ?thesis using n1 n2 a1 a2 b1 b2 by simp
qed

text \<open>
  C8 as stated fails in both directions. Every input of one byte is accepted as the empty
  account, whose encoding is \<open>0xc0\<close>: the input \<open>00\<close> does not come back. An account
  with the zero hash as root and no code hash is encoded as if it had the empty root and the
  empty code hash, and decoding gives those, not the account.
\<close>

theorem account_roundtrip_counterexample:
  "encodingToAccount [0] = Inr (Some emptyAccount) \<and>
   accountToEncoding emptyAccount = Inr [0xc0] \<and> [0xc0] \<noteq> [0 :: byte] \<and>
   accountToEncoding zeroRootAccount = Inr [0xc2, 1, 0x80] \<and>
   encodingToAccount [0xc2, 1, 0x80] =
     Inr (Some (zeroRootAccount\<lparr>sRoot := state_emptyRoot,
                                 sCodeHash := Some state_emptyCodeHash\<rparr>)) \<and>
   zeroRootAccount\<lparr>sRoot := state_emptyRoot, sCodeHash := Some state_emptyCodeHash\<rparr>
     \<noteq> zeroRootAccount"
proof -
  have a: "encodingToAccount [0] = Inr (Some emptyAccount)"
    by (simp add: encodingToAccount_def emptyAccount_def)
  have b: "accountToEncoding emptyAccount = Inr [0xc0]"
    by (simp add: accountToEncoding_def emptyAccount_def)
  have x: "rlp_list [enc_uint64 1, enc_big 0] = [0xc2, 1, 0x80]"
    by (simp add: rlp_list_def rlp_header_def demo_enc_small)
  have c: "accountToEncoding zeroRootAccount = Inr [0xc2, 1, 0x80]"
    using x by (simp add: accountToEncoding_def zeroRootAccount_def)
  have d: "decode_ExtAccount [0xc2, 1, 0x80] = Inr (1, 0)"
    by (simp add: decode_ExtAccount_def take_list_def rlp_split_def field_uint64_def
        field_big_def take_string_def)
  have e: "encodingToAccount [0xc2, 1, 0x80] =
     Inr (Some (zeroRootAccount\<lparr>sRoot := state_emptyRoot,
                                 sCodeHash := Some state_emptyCodeHash\<rparr>))"
    using d by (simp add: encodingToAccount_def zeroRootAccount_def)
  show ?thesis using a b c e by (simp add: zeroRootAccount_def)
qed


section \<open>Unwinding to an earlier block\<close>










































section \<open>The empty-trie root\<close>

text \<open>
  The 24 rounds of the permutation on the one block that absorbing the RLP of the empty
  string gives, one round to a lemma to keep each evaluation small.
\<close>

lemma keccak_empty_round_0:
  "keccak_round [
     0x0000000000000180, 0x0000000000000000, 0x0000000000000000, 0x0000000000000000,
     0x0000000000000000, 0x0000000000000000, 0x0000000000000000, 0x0000000000000000,
     0x0000000000000000, 0x0000000000000000, 0x0000000000000000, 0x0000000000000000,
     0x0000000000000000, 0x0000000000000000, 0x0000000000000000, 0x0000000000000000,
     0x8000000000000000, 0x0000000000000000, 0x0000000000000000, 0x0000000000000000,
     0x0000000000000000, 0x0000000000000000, 0x0000000000000000, 0x0000000000000000,
     0x0000000000000000]
     0x0000000000000001 =
   [
     0x0000040000000180, 0x0018000000000000, 0x0000040000C00000, 0x0000000000000181,
     0x0018000000C00000, 0x0000000000000008, 0x0030100030000000, 0x1000000000000008,
     0x0030100000000000, 0x1000000030000000, 0x0000000000000300, 0x0000000000030020,
     0x0000000000040000, 0x0000000000030300, 0x0000000000040020, 0x0000001800060000,
     0x0000001000004000, 0x0000000000060000, 0x0000001800004000, 0x0000000000000000,
     0x2001800000000000, 0x0000020000000000, 0x0001800000000600, 0x2000020000000000,
     0x0000000000000600]"
  by (simp add: keccak_round_def keccak_theta_def theta_C_def theta_D_def keccak_rhopi_def
      rhopi_src_def rhopi_rot_def rotl64_def)

lemma keccak_empty_round_1:
  "keccak_round [
     0x0000040000000180, 0x0018000000000000, 0x0000040000C00000, 0x0000000000000181,
     0x0018000000C00000, 0x0000000000000008, 0x0030100030000000, 0x1000000000000008,
     0x0030100000000000, 0x1000000030000000, 0x0000000000000300, 0x0000000000030020,
     0x0000000000040000, 0x0000000000030300, 0x0000000000040020, 0x0000001800060000,
     0x0000001000004000, 0x0000000000060000, 0x0000001800004000, 0x0000000000000000,
     0x2001800000000000, 0x0000020000000000, 0x0001800000000600, 0x2000020000000000,
     0x0000000000000600]
     0x0000000000008082 =
   [
     0x1E48322010F207E2, 0xA1EDA94A21C78528, 0x4AAB1200D1D1598C, 0x934C0969498481D0,
     0xE62B8000F9655814, 0x065481BE15033040, 0xEB1100F428960301, 0x824917C680149344,
     0x4FC78038C0820030, 0xE88A36846E14BB55, 0x00F70A2293043C38, 0x2115A00C0E76DAF4,
     0x8043D11880E0230E, 0x332E30300D438D70, 0x8289C30619F183A2, 0x42167A3A8B39F8D1,
     0x1D287E80E6034221, 0x4A304180045AAA0A, 0x1B165239699130F5, 0x4438350704E3480E,
     0x91B1D4B815BC6148, 0xAC1400CA8070C5A4, 0x05A1E0F01F8D1E40, 0x191CC4A8987931A9,
     0x240238220608BE65]"
  by (simp add: keccak_round_def keccak_theta_def theta_C_def theta_D_def keccak_rhopi_def
      rhopi_src_def rhopi_rot_def rotl64_def)

lemma keccak_empty_round_2:
  "keccak_round [
     0x1E48322010F207E2, 0xA1EDA94A21C78528, 0x4AAB1200D1D1598C, 0x934C0969498481D0,
     0xE62B8000F9655814, 0x065481BE15033040, 0xEB1100F428960301, 0x824917C680149344,
     0x4FC78038C0820030, 0xE88A36846E14BB55, 0x00F70A2293043C38, 0x2115A00C0E76DAF4,
     0x8043D11880E0230E, 0x332E30300D438D70, 0x8289C30619F183A2, 0x42167A3A8B39F8D1,
     0x1D287E80E6034221, 0x4A304180045AAA0A, 0x1B165239699130F5, 0x4438350704E3480E,
     0x91B1D4B815BC6148, 0xAC1400CA8070C5A4, 0x05A1E0F01F8D1E40, 0x191CC4A8987931A9,
     0x240238220608BE65]
     0x800000000000808A =
   [
     0x92EEF97B5E30A756, 0xAAA0A063D7D9FB58, 0x7376F45F672B17D2, 0xDA8753AE5708A048,
     0x6E6A9A51A422CFCD, 0x03C6553212D548D0, 0x5583A58939A534A3, 0xCAFCEBB3EC90F08A,
     0x645D5D005419EF7A, 0x5085F9943B9848D3, 0xCAB2A22A21EF4C6F, 0xFC8FF582A2B56176,
     0xA337A963DB5E5569, 0xCF360963D7419D7D, 0x3FB0387983D78125, 0x2581F3C4FDE6750C,
     0xAC9D46B5CAE16ED8, 0xE573B60FC3C5E790, 0xF4ED04A481C505D1, 0xACD60C514B4B56D0,
     0x5ADD1AFA8597E255, 0xF7E8A9816C13C939, 0x5E97167CFD60654A, 0xA5B9DC355DBE9F89,
     0xA0E393A41F9BA355]"
  by (simp add: keccak_round_def keccak_theta_def theta_C_def theta_D_def keccak_rhopi_def
      rhopi_src_def rhopi_rot_def rotl64_def)

lemma keccak_empty_round_3:
  "keccak_round [
     0x92EEF97B5E30A756, 0xAAA0A063D7D9FB58, 0x7376F45F672B17D2, 0xDA8753AE5708A048,
     0x6E6A9A51A422CFCD, 0x03C6553212D548D0, 0x5583A58939A534A3, 0xCAFCEBB3EC90F08A,
     0x645D5D005419EF7A, 0x5085F9943B9848D3, 0xCAB2A22A21EF4C6F, 0xFC8FF582A2B56176,
     0xA337A963DB5E5569, 0xCF360963D7419D7D, 0x3FB0387983D78125, 0x2581F3C4FDE6750C,
     0xAC9D46B5CAE16ED8, 0xE573B60FC3C5E790, 0xF4ED04A481C505D1, 0xACD60C514B4B56D0,
     0x5ADD1AFA8597E255, 0xF7E8A9816C13C939, 0x5E97167CFD60654A, 0xA5B9DC355DBE9F89,
     0xA0E393A41F9BA355]
     0x8000000080008000 =
   [
     0xB6571F4BCAFFF638, 0xA712C135767B0B37, 0x3EF15DD558442B4D, 0x5769DF500ABAA833,
     0x6098CF6594883B70, 0x3AD175FC9734DC9D, 0xC304AD5E8AC19B2E, 0xBBD2C077E944D7CB,
     0x4577F851C792003F, 0x8DC776F108A2BC83, 0x93E8B59C7CE45975, 0x341F96ADBD4CF0F5,
     0x1A70B485DC616D3C, 0xFA9D27E5A677E3AD, 0xC43A65318FD5BA17, 0xB023FBF1D82AFE1E,
     0xE2EB9B3BF6C3C42C, 0xF8F6BCAF7852C76B, 0x2BD456E1BF710678, 0x5FD635487A628568,
     0x9BA79464A7D1ED64, 0x2CC73CF10757B11E, 0x810121AB4734DEE8, 0x43AEC45ED243EA46,
     0x2239E41387A66162]"
  by (simp add: keccak_round_def keccak_theta_def theta_C_def theta_D_def keccak_rhopi_def
      rhopi_src_def rhopi_rot_def rotl64_def)

lemma keccak_empty_round_4:
  "keccak_round [
     0xB6571F4BCAFFF638, 0xA712C135767B0B37, 0x3EF15DD558442B4D, 0x5769DF500ABAA833,
     0x6098CF6594883B70, 0x3AD175FC9734DC9D, 0xC304AD5E8AC19B2E, 0xBBD2C077E944D7CB,
     0x4577F851C792003F, 0x8DC776F108A2BC83, 0x93E8B59C7CE45975, 0x341F96ADBD4CF0F5,
     0x1A70B485DC616D3C, 0xFA9D27E5A677E3AD, 0xC43A65318FD5BA17, 0xB023FBF1D82AFE1E,
     0xE2EB9B3BF6C3C42C, 0xF8F6BCAF7852C76B, 0x2BD456E1BF710678, 0x5FD635487A628568,
     0x9BA79464A7D1ED64, 0x2CC73CF10757B11E, 0x810121AB4734DEE8, 0x43AEC45ED243EA46,
     0x2239E41387A66162]
     0x000000000000808B =
   [
     0x9F9724A944211CE6, 0x88FF73A8F6DE6398, 0x81B7E335762B8946, 0xBDF48083B7AC88B5,
     0x65E55C1AF2B011C5, 0x684CA8BF71D4860F, 0x5BF5965DACA66E38, 0xF8005BDDA7DCC937,
     0xDE9AA35448F4668B, 0x36F9FD42BB73F831, 0xCB323F3B9948E6CC, 0x89A8131459E2EA2F,
     0x72588F88C9761718, 0xCBA47CC2A6E391F6, 0x8E00E4FC1AFCC59D, 0x70737BF7824D33E4,
     0x9E304E84A1D92131, 0x703D49145E18B377, 0x72F882F192C4B3B2, 0x2F8C9A6BA14C33C0,
     0x2823C50FF1745669, 0x4F15F20A8334D5B8, 0x5DED6E10BB680808, 0x8250D2A9CF9474CD,
     0x9097B287F0B3A60B]"
  by (simp add: keccak_round_def keccak_theta_def theta_C_def theta_D_def keccak_rhopi_def
      rhopi_src_def rhopi_rot_def rotl64_def)

lemma keccak_empty_round_5:
  "keccak_round [
     0x9F9724A944211CE6, 0x88FF73A8F6DE6398, 0x81B7E335762B8946, 0xBDF48083B7AC88B5,
     0x65E55C1AF2B011C5, 0x684CA8BF71D4860F, 0x5BF5965DACA66E38, 0xF8005BDDA7DCC937,
     0xDE9AA35448F4668B, 0x36F9FD42BB73F831, 0xCB323F3B9948E6CC, 0x89A8131459E2EA2F,
     0x72588F88C9761718, 0xCBA47CC2A6E391F6, 0x8E00E4FC1AFCC59D, 0x70737BF7824D33E4,
     0x9E304E84A1D92131, 0x703D49145E18B377, 0x72F882F192C4B3B2, 0x2F8C9A6BA14C33C0,
     0x2823C50FF1745669, 0x4F15F20A8334D5B8, 0x5DED6E10BB680808, 0x8250D2A9CF9474CD,
     0x9097B287F0B3A60B]
     0x0000000080000001 =
   [
     0x4B9EDD775044644A, 0x1AFF93B62BB408AD, 0x5ABB8218DDB2EF4E, 0x02ABDBAE98169A21,
     0xF9F950D420CB18E5, 0x1563F516B7EDD5A6, 0x96408B97192A6E3C, 0xF11F746ED93BC655,
     0xAC3EB6FCA9F74014, 0x86D5CF5DBA7B2754, 0x6C4C9975A5226C35, 0x40C143217882D362,
     0x0EDD667C48527B6C, 0x9C9EB51A2FDA27AF, 0x62E587697D11E768, 0x4212BD27170D0643,
     0x1DA10009BC5413A9, 0x2DF861F6019EEEC5, 0x6EFA279D6A0FAFBB, 0x82C163189D67F47B,
     0xAD9C05FB1F82F7CB, 0xACC6D7B4A55C80F8, 0x97A4555F80301D21, 0xE7EC97AAF7A6698E,
     0xDF492C5E5D1450C5]"
  by (simp add: keccak_round_def keccak_theta_def theta_C_def theta_D_def keccak_rhopi_def
      rhopi_src_def rhopi_rot_def rotl64_def)

lemma keccak_empty_round_6:
  "keccak_round [
     0x4B9EDD775044644A, 0x1AFF93B62BB408AD, 0x5ABB8218DDB2EF4E, 0x02ABDBAE98169A21,
     0xF9F950D420CB18E5, 0x1563F516B7EDD5A6, 0x96408B97192A6E3C, 0xF11F746ED93BC655,
     0xAC3EB6FCA9F74014, 0x86D5CF5DBA7B2754, 0x6C4C9975A5226C35, 0x40C143217882D362,
     0x0EDD667C48527B6C, 0x9C9EB51A2FDA27AF, 0x62E587697D11E768, 0x4212BD27170D0643,
     0x1DA10009BC5413A9, 0x2DF861F6019EEEC5, 0x6EFA279D6A0FAFBB, 0x82C163189D67F47B,
     0xAD9C05FB1F82F7CB, 0xACC6D7B4A55C80F8, 0x97A4555F80301D21, 0xE7EC97AAF7A6698E,
     0xDF492C5E5D1450C5]
     0x8000000080008081 =
   [
     0x70AC9B87E0FEA58B, 0xDE1DA48340BF8798, 0x00F4C80EF1F1A4E9, 0xEE5D9AD68DD22BC4,
     0x95FC76F380F3FF1E, 0xA1785D7EEB924D90, 0x05239C86CD987E6A, 0x21F69D683442E8BE,
     0x6FB7C3CEE9400993, 0xD9926323BE883BF0, 0x9347B2AF52B4DEF4, 0x8F0AEA215B74EEBC,
     0xE7DC1E9CE6267B45, 0x7119719A1981F787, 0x209670E31BE17FB3, 0x4DBA397E49249355,
     0x6BAE480CB817BDC2, 0x952EFBA9B691329E, 0x9658AA94551C9324, 0xF33C0B9CF56E5B92,
     0x952405B7E00AEF9D, 0x0EB50D1E89142704, 0x55422E3CD5764B25, 0x2E4AE2E2E1C7F6AD,
     0x1E5394A5DF5AAE3D]"
  by (simp add: keccak_round_def keccak_theta_def theta_C_def theta_D_def keccak_rhopi_def
      rhopi_src_def rhopi_rot_def rotl64_def)

lemma keccak_empty_round_7:
  "keccak_round [
     0x70AC9B87E0FEA58B, 0xDE1DA48340BF8798, 0x00F4C80EF1F1A4E9, 0xEE5D9AD68DD22BC4,
     0x95FC76F380F3FF1E, 0xA1785D7EEB924D90, 0x05239C86CD987E6A, 0x21F69D683442E8BE,
     0x6FB7C3CEE9400993, 0xD9926323BE883BF0, 0x9347B2AF52B4DEF4, 0x8F0AEA215B74EEBC,
     0xE7DC1E9CE6267B45, 0x7119719A1981F787, 0x209670E31BE17FB3, 0x4DBA397E49249355,
     0x6BAE480CB817BDC2, 0x952EFBA9B691329E, 0x9658AA94551C9324, 0xF33C0B9CF56E5B92,
     0x952405B7E00AEF9D, 0x0EB50D1E89142704, 0x55422E3CD5764B25, 0x2E4AE2E2E1C7F6AD,
     0x1E5394A5DF5AAE3D]
     0x8000000000008009 =
   [
     0x07464DF921B37467, 0xABD1FD64BB9C1BF0, 0x3CA943AE28CA9C95, 0x9FC504680C6358F9,
     0x31CA0DDB3C86D33A, 0x5D5DDB8C8F280728, 0x078DA359BC6BF799, 0xD6DA3640ADEA1C70,
     0xAC5CFF184D01B208, 0xDC35CF5D0474A452, 0x12E6B38DF772A9CD, 0x4380EC4468D7E5A8,
     0xC28DDE4B37695307, 0x5751765D4A7DA4C7, 0x0350C846E97C9B93, 0xC76EBE51D7AF1858,
     0xFD53E6244C188B12, 0xAB79162D08CBC565, 0xD2FF497829920EF9, 0xC9BAD6ACB1BE68A7,
     0x680EA51E454C9264, 0x7AB538041BC1146D, 0xC2DD528D36C154DF, 0xDF8F6DDCE49E2120,
     0x60C4F53F7E88E4CF]"
  by (simp add: keccak_round_def keccak_theta_def theta_C_def theta_D_def keccak_rhopi_def
      rhopi_src_def rhopi_rot_def rotl64_def)

lemma keccak_empty_round_8:
  "keccak_round [
     0x07464DF921B37467, 0xABD1FD64BB9C1BF0, 0x3CA943AE28CA9C95, 0x9FC504680C6358F9,
     0x31CA0DDB3C86D33A, 0x5D5DDB8C8F280728, 0x078DA359BC6BF799, 0xD6DA3640ADEA1C70,
     0xAC5CFF184D01B208, 0xDC35CF5D0474A452, 0x12E6B38DF772A9CD, 0x4380EC4468D7E5A8,
     0xC28DDE4B37695307, 0x5751765D4A7DA4C7, 0x0350C846E97C9B93, 0xC76EBE51D7AF1858,
     0xFD53E6244C188B12, 0xAB79162D08CBC565, 0xD2FF497829920EF9, 0xC9BAD6ACB1BE68A7,
     0x680EA51E454C9264, 0x7AB538041BC1146D, 0xC2DD528D36C154DF, 0xDF8F6DDCE49E2120,
     0x60C4F53F7E88E4CF]
     0x000000000000008A =
   [
     0x10E1B5DC6DF83103, 0x7979721BD4DDD61C, 0xB037704C7E1C7D1C, 0x8BF2A029B60B88F6,
     0xEA6E0981D91137E7, 0xBBDF1DF8F4DBDB98, 0x3A54C73D6C17B993, 0x4E0A5FD451CFE111,
     0x9B26930F65C3087A, 0xEF128FBEF847E056, 0x0446A7F9E2008C79, 0x64420026C5DA6073,
     0xBE0A3C5135349917, 0xB400594139A8343F, 0x33FCE819737DBEAF, 0x4B674A1C04FE5EC9,
     0x12B4B07EAF82A6DF, 0xEA33C33D5B93BD38, 0xB5D7D60748A8CA50, 0x5A01D3B0D4550DB4,
     0x65741FEB87053239, 0xFB333C004B6F3839, 0x8BF98090C82E50D0, 0xC923F3B9909F1300,
     0xE47622E379CD088C]"
  by (simp add: keccak_round_def keccak_theta_def theta_C_def theta_D_def keccak_rhopi_def
      rhopi_src_def rhopi_rot_def rotl64_def)

lemma keccak_empty_round_9:
  "keccak_round [
     0x10E1B5DC6DF83103, 0x7979721BD4DDD61C, 0xB037704C7E1C7D1C, 0x8BF2A029B60B88F6,
     0xEA6E0981D91137E7, 0xBBDF1DF8F4DBDB98, 0x3A54C73D6C17B993, 0x4E0A5FD451CFE111,
     0x9B26930F65C3087A, 0xEF128FBEF847E056, 0x0446A7F9E2008C79, 0x64420026C5DA6073,
     0xBE0A3C5135349917, 0xB400594139A8343F, 0x33FCE819737DBEAF, 0x4B674A1C04FE5EC9,
     0x12B4B07EAF82A6DF, 0xEA33C33D5B93BD38, 0xB5D7D60748A8CA50, 0x5A01D3B0D4550DB4,
     0x65741FEB87053239, 0xFB333C004B6F3839, 0x8BF98090C82E50D0, 0xC923F3B9909F1300,
     0xE47622E379CD088C]
     0x0000000000000088 =
   [
     0x1D5E5855A5B07998, 0xA727DF161AFDF8D3, 0x18C67A0594D6E943, 0x1083C2CB7C50C8A7,
     0x947BE902CE1F0FC7, 0xE40B3A04F9FA0DFA, 0x2786920D1012F6EA, 0x9B00574274EA1010,
     0xAFA46100B043A417, 0xBD8AA4C286AEF144, 0xE3D039F07D601FB6, 0x4B9E523D955EA18C,
     0x941A29294181A520, 0xC1782CD7BF346810, 0xC1A36B3EF2A32147, 0x2E15B67519E4D708,
     0x39299BFACE9FCF47, 0x42EA3423DAEA37B9, 0xF2FE510072F28EDD, 0x3ED17917D0EDA320,
     0x7E85D12025D3CDB0, 0x42D59A76C04FDE9D, 0xCFE9BFF681094CF4, 0x7D05509CA19F6951,
     0xE6DB11D04403BD30]"
  by (simp add: keccak_round_def keccak_theta_def theta_C_def theta_D_def keccak_rhopi_def
      rhopi_src_def rhopi_rot_def rotl64_def)

lemma keccak_empty_round_10:
  "keccak_round [
     0x1D5E5855A5B07998, 0xA727DF161AFDF8D3, 0x18C67A0594D6E943, 0x1083C2CB7C50C8A7,
     0x947BE902CE1F0FC7, 0xE40B3A04F9FA0DFA, 0x2786920D1012F6EA, 0x9B00574274EA1010,
     0xAFA46100B043A417, 0xBD8AA4C286AEF144, 0xE3D039F07D601FB6, 0x4B9E523D955EA18C,
     0x941A29294181A520, 0xC1782CD7BF346810, 0xC1A36B3EF2A32147, 0x2E15B67519E4D708,
     0x39299BFACE9FCF47, 0x42EA3423DAEA37B9, 0xF2FE510072F28EDD, 0x3ED17917D0EDA320,
     0x7E85D12025D3CDB0, 0x42D59A76C04FDE9D, 0xCFE9BFF681094CF4, 0x7D05509CA19F6951,
     0xE6DB11D04403BD30]
     0x0000000080008009 =
   [
     0xCEE0290529CB549A, 0x6D8DBD038339EDB3, 0x8E6CA32427443456, 0x5D3AA28449EFD62A,
     0x49B1A31EAD210BDD, 0xADED66C39E5ED8B8, 0x74A945FF7E0FA047, 0x91F663E802ED97F5,
     0xF239C89063AF6DE7, 0x418CFEA7AB1EA6DD, 0xAD3BFCBBEEDDA9C9, 0x611B622BD61AD9B3,
     0xBC01A7284E3A075A, 0x6F852740B9B3D6DA, 0x8BB4A5F1C3EEBD5C, 0xD32788913DA5C8A3,
     0x565B0B175CD11EAF, 0x15C593B3AE7A449D, 0x0BE415BFAD4E0882, 0xCBDF6D4915562EC1,
     0x7BC30629830CAD69, 0xD6EEE394E58BE20B, 0x28BAB8D236FFAF24, 0xB4D51ED487CA1266,
     0xF5D60644C338D430]"
  by (simp add: keccak_round_def keccak_theta_def theta_C_def theta_D_def keccak_rhopi_def
      rhopi_src_def rhopi_rot_def rotl64_def)

lemma keccak_empty_round_11:
  "keccak_round [
     0xCEE0290529CB549A, 0x6D8DBD038339EDB3, 0x8E6CA32427443456, 0x5D3AA28449EFD62A,
     0x49B1A31EAD210BDD, 0xADED66C39E5ED8B8, 0x74A945FF7E0FA047, 0x91F663E802ED97F5,
     0xF239C89063AF6DE7, 0x418CFEA7AB1EA6DD, 0xAD3BFCBBEEDDA9C9, 0x611B622BD61AD9B3,
     0xBC01A7284E3A075A, 0x6F852740B9B3D6DA, 0x8BB4A5F1C3EEBD5C, 0xD32788913DA5C8A3,
     0x565B0B175CD11EAF, 0x15C593B3AE7A449D, 0x0BE415BFAD4E0882, 0xCBDF6D4915562EC1,
     0x7BC30629830CAD69, 0xD6EEE394E58BE20B, 0x28BAB8D236FFAF24, 0xB4D51ED487CA1266,
     0xF5D60644C338D430]
     0x000000008000000A =
   [
     0x9274D3ED9E5067FB, 0xC5E372DB6F26D7F6, 0x1CF2F4DE22080CA5, 0x760F767A4525EE2F,
     0x6B760D7168E341FD, 0xB59864C9D3BD788B, 0xA13C7BB52744135C, 0x289652E9C670511B,
     0x0011C5A834FA332B, 0x25CE52EB3E8EE470, 0x7776B79A07F8A6BC, 0xC4A7399AFD8D0C44,
     0x9DDDB4859B104D9E, 0xE478DFE2E639525B, 0x4797911EC008C55C, 0x51DD25B22FD158F5,
     0x201A1D0E365113EA, 0x4E0A875BC60FEE60, 0xB440A0F245401D65, 0xFD532878CB53A182,
     0xE3C607CF61F32C54, 0xBE496F726BE93B7E, 0xBFB57ADC43CC2270, 0x2DC5913F0719F645,
     0x2BD8F57B9F103185]"
  by (simp add: keccak_round_def keccak_theta_def theta_C_def theta_D_def keccak_rhopi_def
      rhopi_src_def rhopi_rot_def rotl64_def)

lemma keccak_empty_round_12:
  "keccak_round [
     0x9274D3ED9E5067FB, 0xC5E372DB6F26D7F6, 0x1CF2F4DE22080CA5, 0x760F767A4525EE2F,
     0x6B760D7168E341FD, 0xB59864C9D3BD788B, 0xA13C7BB52744135C, 0x289652E9C670511B,
     0x0011C5A834FA332B, 0x25CE52EB3E8EE470, 0x7776B79A07F8A6BC, 0xC4A7399AFD8D0C44,
     0x9DDDB4859B104D9E, 0xE478DFE2E639525B, 0x4797911EC008C55C, 0x51DD25B22FD158F5,
     0x201A1D0E365113EA, 0x4E0A875BC60FEE60, 0xB440A0F245401D65, 0xFD532878CB53A182,
     0xE3C607CF61F32C54, 0xBE496F726BE93B7E, 0xBFB57ADC43CC2270, 0x2DC5913F0719F645,
     0x2BD8F57B9F103185]
     0x000000008000808B =
   [
     0xB88E85FB8ED7F5D3, 0x56623F7F15719C6E, 0xA968D591A2AFAEC3, 0x1981318F931B675C,
     0x3D210AB033E8F16C, 0x079D353B2B941FE6, 0xA1D2D3F3F97EFAF4, 0x362218458B8495EE,
     0x2DE8C358D534C246, 0x3AC910B56456014E, 0x8FCE04B9B48D4DD8, 0x5CEAE7A1550765D0,
     0xF4747237FC866CEF, 0x98AA13118F5B6316, 0x15452FE8338B22D2, 0xF9B9DDD85C6CBAA8,
     0x0344881124BD345F, 0xEFDE417BB1ECEA50, 0xBA355631AB7633D3, 0xDA8E895827FAFA9F,
     0xE94B932B6A08F980, 0x4BB3AC268D074677, 0xEF1BBC4E9B45830B, 0xFC902FE54F2E087A,
     0xA12663EEEB003FC8]"
  by (simp add: keccak_round_def keccak_theta_def theta_C_def theta_D_def keccak_rhopi_def
      rhopi_src_def rhopi_rot_def rotl64_def)

lemma keccak_empty_round_13:
  "keccak_round [
     0xB88E85FB8ED7F5D3, 0x56623F7F15719C6E, 0xA968D591A2AFAEC3, 0x1981318F931B675C,
     0x3D210AB033E8F16C, 0x079D353B2B941FE6, 0xA1D2D3F3F97EFAF4, 0x362218458B8495EE,
     0x2DE8C358D534C246, 0x3AC910B56456014E, 0x8FCE04B9B48D4DD8, 0x5CEAE7A1550765D0,
     0xF4747237FC866CEF, 0x98AA13118F5B6316, 0x15452FE8338B22D2, 0xF9B9DDD85C6CBAA8,
     0x0344881124BD345F, 0xEFDE417BB1ECEA50, 0xBA355631AB7633D3, 0xDA8E895827FAFA9F,
     0xE94B932B6A08F980, 0x4BB3AC268D074677, 0xEF1BBC4E9B45830B, 0xFC902FE54F2E087A,
     0xA12663EEEB003FC8]
     0x800000000000008B =
   [
     0xBFD7068C065C0D88, 0xC630BCE4FA4D7209, 0xEE8C3442A111CFF1, 0x5E41B90445847885,
     0x039A133EFA7880CB, 0xE7541B681323DC0E, 0x2A0172F140DB1525, 0x06864EDDE924C5D5,
     0x55651D931EE4C379, 0x432F14FD5E2DC225, 0xE33480B419A60F2D, 0x472582F05A4BF1E0,
     0xA850026DB243B9DE, 0xB5805E740BE8B353, 0x5992D0CC71C8EC90, 0x7E8C9C1A1F685999,
     0x02FE4DCBBC272519, 0x4E271A6293318EAC, 0x3DAA73ABA824AF7B, 0xAC37409304E2B05B,
     0x9683406BD811293A, 0xCE5E8C3FDC25DFEA, 0x882B36DFAC276728, 0x889FA60564B96E93,
     0xB9E34011563BA843]"
  by (simp add: keccak_round_def keccak_theta_def theta_C_def theta_D_def keccak_rhopi_def
      rhopi_src_def rhopi_rot_def rotl64_def)

lemma keccak_empty_round_14:
  "keccak_round [
     0xBFD7068C065C0D88, 0xC630BCE4FA4D7209, 0xEE8C3442A111CFF1, 0x5E41B90445847885,
     0x039A133EFA7880CB, 0xE7541B681323DC0E, 0x2A0172F140DB1525, 0x06864EDDE924C5D5,
     0x55651D931EE4C379, 0x432F14FD5E2DC225, 0xE33480B419A60F2D, 0x472582F05A4BF1E0,
     0xA850026DB243B9DE, 0xB5805E740BE8B353, 0x5992D0CC71C8EC90, 0x7E8C9C1A1F685999,
     0x02FE4DCBBC272519, 0x4E271A6293318EAC, 0x3DAA73ABA824AF7B, 0xAC37409304E2B05B,
     0x9683406BD811293A, 0xCE5E8C3FDC25DFEA, 0x882B36DFAC276728, 0x889FA60564B96E93,
     0xB9E34011563BA843]
     0x8000000000008089 =
   [
     0xF64FB3A4A6ADEB5D, 0xB53906605084B33B, 0x1A38F88EF0CE3C55, 0x5BE47193399621E1,
     0x3BF7D30A9655954B, 0x08A4FCA3F4DE0525, 0x7DB8D4BC73224AEB, 0x1D705CD658F349BA,
     0xE71DCBFC088BBBAC, 0xA806BFBEA1BA8BF9, 0x73C8A8BEF40AF3BB, 0x124AC9D0402FD51D,
     0x609061ABCADC332C, 0xD6A51D1FD4778D99, 0xB3322EED1C8D5C62, 0x07AD78A0467BCDF1,
     0x7DCB24E05CEFE771, 0xC4AE1271EE0D1460, 0x627C55421C5E12F9, 0x79052F1F592B7050,
     0x2D9E387A9E6D2D55, 0xC5A66A7367EB8EF8, 0x0F3C77FEE8AAF571, 0x06E92A8A2ECB2133,
     0x8548D407149596D4]"
  by (simp add: keccak_round_def keccak_theta_def theta_C_def theta_D_def keccak_rhopi_def
      rhopi_src_def rhopi_rot_def rotl64_def)

lemma keccak_empty_round_15:
  "keccak_round [
     0xF64FB3A4A6ADEB5D, 0xB53906605084B33B, 0x1A38F88EF0CE3C55, 0x5BE47193399621E1,
     0x3BF7D30A9655954B, 0x08A4FCA3F4DE0525, 0x7DB8D4BC73224AEB, 0x1D705CD658F349BA,
     0xE71DCBFC088BBBAC, 0xA806BFBEA1BA8BF9, 0x73C8A8BEF40AF3BB, 0x124AC9D0402FD51D,
     0x609061ABCADC332C, 0xD6A51D1FD4778D99, 0xB3322EED1C8D5C62, 0x07AD78A0467BCDF1,
     0x7DCB24E05CEFE771, 0xC4AE1271EE0D1460, 0x627C55421C5E12F9, 0x79052F1F592B7050,
     0x2D9E387A9E6D2D55, 0xC5A66A7367EB8EF8, 0x0F3C77FEE8AAF571, 0x06E92A8A2ECB2133,
     0x8548D407149596D4]
     0x8000000000008003 =
   [
     0x1FFD81075D634423, 0x89868C214376B84C, 0x79FAEB3D6E2B39E5, 0x1897142D912461F1,
     0x109C57CDD0114934, 0x9953CAE1A88B5B2F, 0x36AA89E592879AA2, 0x5454D42B1DF6E93B,
     0x7BB0FCC07C6F7D77, 0x2A09136651FFBBC1, 0xD7E8D333C94AC6F5, 0xBC6E6F19EA3930B8,
     0xC2FF1649C187B5DF, 0xF8D1A021CB6683BB, 0xA8132AA42E35E178, 0xA9D2AA16F249E81E,
     0xF2C43FB51E6EED8A, 0x3CA91D9B459C5FB5, 0x5EA78CBB8FD497EC, 0x5813AB7970A1310E,
     0xCD431FE96DE30DDA, 0x42FF270893D10C0A, 0x56C97C7AED7C0953, 0x6A871A24DF1EB320,
     0xCA3617A7C43442C8]"
  by (simp add: keccak_round_def keccak_theta_def theta_C_def theta_D_def keccak_rhopi_def
      rhopi_src_def rhopi_rot_def rotl64_def)

lemma keccak_empty_round_16:
  "keccak_round [
     0x1FFD81075D634423, 0x89868C214376B84C, 0x79FAEB3D6E2B39E5, 0x1897142D912461F1,
     0x109C57CDD0114934, 0x9953CAE1A88B5B2F, 0x36AA89E592879AA2, 0x5454D42B1DF6E93B,
     0x7BB0FCC07C6F7D77, 0x2A09136651FFBBC1, 0xD7E8D333C94AC6F5, 0xBC6E6F19EA3930B8,
     0xC2FF1649C187B5DF, 0xF8D1A021CB6683BB, 0xA8132AA42E35E178, 0xA9D2AA16F249E81E,
     0xF2C43FB51E6EED8A, 0x3CA91D9B459C5FB5, 0x5EA78CBB8FD497EC, 0x5813AB7970A1310E,
     0xCD431FE96DE30DDA, 0x42FF270893D10C0A, 0x56C97C7AED7C0953, 0x6A871A24DF1EB320,
     0xCA3617A7C43442C8]
     0x8000000000008002 =
   [
     0xB826E67726460F57, 0xB8652E9D72603263, 0x798750413E84FD42, 0x6DF0FC4B99395A68,
     0x20F97DB03149F399, 0x921900307A9E1717, 0x24060025848A961B, 0x0CCF8F4C71DA8831,
     0x5E5F1086397A7F11, 0xB345A6D012F871A4, 0x37AE604FAE75CB6D, 0x2027C451D199C2AA,
     0xFF0E80EBBCF966DA, 0x232D7FA5D4F7C6A9, 0xA7E4F21A3978ACCA, 0x52470535FB27069C,
     0x720F4E9D986F8F2D, 0x7F0D4D14059E3A4F, 0xE7AF8B12ABC46EA0, 0xF146397D38FBF141,
     0x454B91C8DCB3BE7C, 0x93B16301EC0028C7, 0x443175D6255203EF, 0xD09E7199CE78AD1F,
     0xF71E0F7834BD5F62]"
  by (simp add: keccak_round_def keccak_theta_def theta_C_def theta_D_def keccak_rhopi_def
      rhopi_src_def rhopi_rot_def rotl64_def)

lemma keccak_empty_round_17:
  "keccak_round [
     0xB826E67726460F57, 0xB8652E9D72603263, 0x798750413E84FD42, 0x6DF0FC4B99395A68,
     0x20F97DB03149F399, 0x921900307A9E1717, 0x24060025848A961B, 0x0CCF8F4C71DA8831,
     0x5E5F1086397A7F11, 0xB345A6D012F871A4, 0x37AE604FAE75CB6D, 0x2027C451D199C2AA,
     0xFF0E80EBBCF966DA, 0x232D7FA5D4F7C6A9, 0xA7E4F21A3978ACCA, 0x52470535FB27069C,
     0x720F4E9D986F8F2D, 0x7F0D4D14059E3A4F, 0xE7AF8B12ABC46EA0, 0xF146397D38FBF141,
     0x454B91C8DCB3BE7C, 0x93B16301EC0028C7, 0x443175D6255203EF, 0xD09E7199CE78AD1F,
     0xF71E0F7834BD5F62]
     0x8000000000000080 =
   [
     0x14F2D4CA96D24D7A, 0x0A9E44C6DDCD87E6, 0x2FEDE69DDEA3672A, 0x7809E20AB4F65628,
     0x9AD023F5832C6361, 0x4421D1CC098EE858, 0xA98AF92465582DFE, 0xDA1E02F0DE958E4C,
     0x023E305CC3441768, 0x835FA40CCE9BC4C7, 0xCA08E45803729173, 0x95C68FC1B5806544,
     0xFE5587CE638DAC74, 0x6F7D31C3811ABDC0, 0x1593AB96C7E3567C, 0xDC333CAB21A740AC,
     0x26115371BAC93C94, 0x2A67F2A9D9D5D927, 0xEC83A24A7D5737C1, 0x9C85A738DD7816D6,
     0x1BEEDC76837E1768, 0x7A45F291EF43C7BC, 0xCC4F118AAC4B1521, 0x328C70BFE56B439F,
     0xAF63FC7653BDDC65]"
  by (simp add: keccak_round_def keccak_theta_def theta_C_def theta_D_def keccak_rhopi_def
      rhopi_src_def rhopi_rot_def rotl64_def)

lemma keccak_empty_round_18:
  "keccak_round [
     0x14F2D4CA96D24D7A, 0x0A9E44C6DDCD87E6, 0x2FEDE69DDEA3672A, 0x7809E20AB4F65628,
     0x9AD023F5832C6361, 0x4421D1CC098EE858, 0xA98AF92465582DFE, 0xDA1E02F0DE958E4C,
     0x023E305CC3441768, 0x835FA40CCE9BC4C7, 0xCA08E45803729173, 0x95C68FC1B5806544,
     0xFE5587CE638DAC74, 0x6F7D31C3811ABDC0, 0x1593AB96C7E3567C, 0xDC333CAB21A740AC,
     0x26115371BAC93C94, 0x2A67F2A9D9D5D927, 0xEC83A24A7D5737C1, 0x9C85A738DD7816D6,
     0x1BEEDC76837E1768, 0x7A45F291EF43C7BC, 0xCC4F118AAC4B1521, 0x328C70BFE56B439F,
     0xAF63FC7653BDDC65]
     0x000000000000800A =
   [
     0x660C4C6FE35996F0, 0x44C420F01FD3E776, 0xFECDF8322FB64FB3, 0xDD0DCE5503F6D748,
     0xB24432A1F866168E, 0x8BEF3B7BEA672E5C, 0xCEADCE18FB2F6167, 0x01F5CFED93EFB580,
     0x2112168F80FE4DCE, 0x6208B8113427A73C, 0x1A0A8A8B9BF3E203, 0x483DB89CCAEBC108,
     0x307CBB851C5CCABC, 0xC49F5E448E190A7C, 0xB7F0AF1153AFC52E, 0xA8A6B360BF4F28C8,
     0x43DB99BBE34C1D8B, 0x2E1DDA92F1DBE4C7, 0x05D72F517C73EB35, 0x1BB9FA843DDA7A8F,
     0xFC7C81F7B6C588B2, 0x476A3862CFFE20F4, 0xADD544301A6A3869, 0x14A65FC988D91990,
     0xF27BEA43BED4F947]"
  by (simp add: keccak_round_def keccak_theta_def theta_C_def theta_D_def keccak_rhopi_def
      rhopi_src_def rhopi_rot_def rotl64_def)

lemma keccak_empty_round_19:
  "keccak_round [
     0x660C4C6FE35996F0, 0x44C420F01FD3E776, 0xFECDF8322FB64FB3, 0xDD0DCE5503F6D748,
     0xB24432A1F866168E, 0x8BEF3B7BEA672E5C, 0xCEADCE18FB2F6167, 0x01F5CFED93EFB580,
     0x2112168F80FE4DCE, 0x6208B8113427A73C, 0x1A0A8A8B9BF3E203, 0x483DB89CCAEBC108,
     0x307CBB851C5CCABC, 0xC49F5E448E190A7C, 0xB7F0AF1153AFC52E, 0xA8A6B360BF4F28C8,
     0x43DB99BBE34C1D8B, 0x2E1DDA92F1DBE4C7, 0x05D72F517C73EB35, 0x1BB9FA843DDA7A8F,
     0xFC7C81F7B6C588B2, 0x476A3862CFFE20F4, 0xADD544301A6A3869, 0x14A65FC988D91990,
     0xF27BEA43BED4F947]
     0x800000008000000A =
   [
     0x8E39B670EFF2B56F, 0x903FCF9C40E49FF2, 0x7BB7390BDD056C7D, 0xE98942DED7F9A4EA,
     0x709315701BA0ED6B, 0xDA8839D01A98DF76, 0x026EBB3100A0A8C1, 0xEDE2E57C03D80CC2,
     0x57E39B320EE8B6CC, 0x277DEBD11977305F, 0x3CD75C1147D2838A, 0x32F710BA89C6F715,
     0xA1D4F41DE92B5A4D, 0xBF4393F2EDBD7BB6, 0x6F0EBEF6A4AFAB00, 0xF0B39708C4EEFB55,
     0x9C42DC5CADAF947A, 0x410D4538C77E5DDA, 0x4123000C2F0BCF49, 0x14049E77FCFAA831,
     0x9673B4AC959BFE12, 0x216E332559697DA6, 0x78A825453A6383CE, 0xC0A613D2964BCD1F,
     0xD40F4B7847200828]"
  by (simp add: keccak_round_def keccak_theta_def theta_C_def theta_D_def keccak_rhopi_def
      rhopi_src_def rhopi_rot_def rotl64_def)

lemma keccak_empty_round_20:
  "keccak_round [
     0x8E39B670EFF2B56F, 0x903FCF9C40E49FF2, 0x7BB7390BDD056C7D, 0xE98942DED7F9A4EA,
     0x709315701BA0ED6B, 0xDA8839D01A98DF76, 0x026EBB3100A0A8C1, 0xEDE2E57C03D80CC2,
     0x57E39B320EE8B6CC, 0x277DEBD11977305F, 0x3CD75C1147D2838A, 0x32F710BA89C6F715,
     0xA1D4F41DE92B5A4D, 0xBF4393F2EDBD7BB6, 0x6F0EBEF6A4AFAB00, 0xF0B39708C4EEFB55,
     0x9C42DC5CADAF947A, 0x410D4538C77E5DDA, 0x4123000C2F0BCF49, 0x14049E77FCFAA831,
     0x9673B4AC959BFE12, 0x216E332559697DA6, 0x78A825453A6383CE, 0xC0A613D2964BCD1F,
     0xD40F4B7847200828]
     0x8000000080008081 =
   [
     0xD8E771143A9FB023, 0xE8879118C520FF6B, 0x15A5D6AD3667960E, 0x1438E010FEDFFA88,
     0x1CBC435DEBB11532, 0x4A2FB26475A7B01D, 0x2585315CB31760A5, 0xF1CDFE8947D3161E,
     0x244C6D95A7ECDB76, 0x0D0F43BD4187E677, 0xA7AB5D6A6B7C3557, 0x0930FC59D826B375,
     0xB2B8642774A461D6, 0xE42789BE8DCA7E48, 0x94B7EA44FF2DDE1C, 0xFE4CBBF64F6B85E4,
     0x410C5AF197FD2F28, 0x65D606FF57697580, 0xE66B5A795BDEBE8F, 0xA31E5570E567C586,
     0xDDD1F7780BE66802, 0xB825007A42D7B27F, 0x2A0CF3615247EC4F, 0x99251867980B1D45,
     0xEE0544787DD4E185]"
  by (simp add: keccak_round_def keccak_theta_def theta_C_def theta_D_def keccak_rhopi_def
      rhopi_src_def rhopi_rot_def rotl64_def)

lemma keccak_empty_round_21:
  "keccak_round [
     0xD8E771143A9FB023, 0xE8879118C520FF6B, 0x15A5D6AD3667960E, 0x1438E010FEDFFA88,
     0x1CBC435DEBB11532, 0x4A2FB26475A7B01D, 0x2585315CB31760A5, 0xF1CDFE8947D3161E,
     0x244C6D95A7ECDB76, 0x0D0F43BD4187E677, 0xA7AB5D6A6B7C3557, 0x0930FC59D826B375,
     0xB2B8642774A461D6, 0xE42789BE8DCA7E48, 0x94B7EA44FF2DDE1C, 0xFE4CBBF64F6B85E4,
     0x410C5AF197FD2F28, 0x65D606FF57697580, 0xE66B5A795BDEBE8F, 0xA31E5570E567C586,
     0xDDD1F7780BE66802, 0xB825007A42D7B27F, 0x2A0CF3615247EC4F, 0x99251867980B1D45,
     0xEE0544787DD4E185]
     0x8000000000008080 =
   [
     0xFB8A995C07308A25, 0xA23B8004E9070FFA, 0x5903760CA667C937, 0x95BA931E862DEB42,
     0x6DDC6AD80336FF23, 0xE24F15534DD29AED, 0x0BEBD326CB39BEBB, 0xE4145C51859EFEAA,
     0x06ACBCBCB67BB4AD, 0x4125CDBF10EC90B9, 0xDCF829440BA38AE5, 0xB18F2056BC5702C7,
     0xF56DC8EDEADB3E4E, 0x66AE5C3A99A2E428, 0x24E5D4E4AE55FFE2, 0x899A24C2CAD945B1,
     0x658DA8FA1064490C, 0x5477CEB06F6EC0B3, 0xC6F9E3859A9A077B, 0x9F15996BA3276F33,
     0xD7A814145BC1D342, 0xC5C0FC0168840931, 0xDB69BC492A84A796, 0xE55FDC949ADBF8AD,
     0x536C2FD129946B92]"
  by (simp add: keccak_round_def keccak_theta_def theta_C_def theta_D_def keccak_rhopi_def
      rhopi_src_def rhopi_rot_def rotl64_def)

lemma keccak_empty_round_22:
  "keccak_round [
     0xFB8A995C07308A25, 0xA23B8004E9070FFA, 0x5903760CA667C937, 0x95BA931E862DEB42,
     0x6DDC6AD80336FF23, 0xE24F15534DD29AED, 0x0BEBD326CB39BEBB, 0xE4145C51859EFEAA,
     0x06ACBCBCB67BB4AD, 0x4125CDBF10EC90B9, 0xDCF829440BA38AE5, 0xB18F2056BC5702C7,
     0xF56DC8EDEADB3E4E, 0x66AE5C3A99A2E428, 0x24E5D4E4AE55FFE2, 0x899A24C2CAD945B1,
     0x658DA8FA1064490C, 0x5477CEB06F6EC0B3, 0xC6F9E3859A9A077B, 0x9F15996BA3276F33,
     0xD7A814145BC1D342, 0xC5C0FC0168840931, 0xDB69BC492A84A796, 0xE55FDC949ADBF8AD,
     0x536C2FD129946B92]
     0x0000000080000001 =
   [
     0x8FCD2572748EF35A, 0x33398182D222A029, 0x823E7F0ED3BD0EF9, 0x3A0C163237C17BDF,
     0x522848A4CFEFACFF, 0x1345CBC371849083, 0x12D37AB4B2C2036E, 0x0D251B451C27AADB,
     0xB506E4892FBF9B27, 0x7978F46633B6F9C9, 0x6FBC6E16818FBF93, 0x1AB06BE43F41D1CF,
     0x6AF6215659D3020C, 0x13CEB1AE603EAF6E, 0x78CA16F29DD1CF8A, 0x5050ECD66768E8EB,
     0xE7DC9835E479D777, 0x66FDF15659279802, 0xA84760568D93206C, 0xC724E0E7AFF97DAF,
     0xDA1A540434B0A6A9, 0xB00899CAC6AE2559, 0xA9402766727B8B59, 0x7F2E6C7BB79DC4C1,
     0x643DA5EDC63D215B]"
  by (simp add: keccak_round_def keccak_theta_def theta_C_def theta_D_def keccak_rhopi_def
      rhopi_src_def rhopi_rot_def rotl64_def)

lemma keccak_empty_round_23:
  "keccak_round [
     0x8FCD2572748EF35A, 0x33398182D222A029, 0x823E7F0ED3BD0EF9, 0x3A0C163237C17BDF,
     0x522848A4CFEFACFF, 0x1345CBC371849083, 0x12D37AB4B2C2036E, 0x0D251B451C27AADB,
     0xB506E4892FBF9B27, 0x7978F46633B6F9C9, 0x6FBC6E16818FBF93, 0x1AB06BE43F41D1CF,
     0x6AF6215659D3020C, 0x13CEB1AE603EAF6E, 0x78CA16F29DD1CF8A, 0x5050ECD66768E8EB,
     0xE7DC9835E479D777, 0x66FDF15659279802, 0xA84760568D93206C, 0xC724E0E7AFF97DAF,
     0xDA1A540434B0A6A9, 0xB00899CAC6AE2559, 0xA9402766727B8B59, 0x7F2E6C7BB79DC4C1,
     0x643DA5EDC63D215B]
     0x8000000080008008 =
   [
     0xA655CC1B171FE856, 0x6EF8C092E64583FF, 0xC0AD6C991BE0485B, 0x21B463E3B52F6201,
     0x6F2789526BDCB6FA, 0xB9A4DFA32E467194, 0x7FBF54770EAC2B9D, 0x3B151FB49843C62A,
     0x7456E960FEC6DD27, 0x280BA513315A09B9, 0x7E575E5CFA088096, 0xAC01167B7B5D86FB,
     0xEF9B6D2997B479F9, 0x6D93135B74FAB5FA, 0xE593186487A0CC7B, 0x349AD316F75F5F7E,
     0x7055A8558EF92038, 0xBD670349DCB6A5B4, 0x670D5078A2288496, 0x27F151402ABA31FD,
     0xCC7ACC34CF013622, 0x61E0A6C7F80274D2, 0xF72051E0EEB4827C, 0x9A7F5EF7DCD7ED2B,
     0x56DB3F518F237F3F]"
  by (simp add: keccak_round_def keccak_theta_def theta_C_def theta_D_def keccak_rhopi_def
      rhopi_src_def rhopi_rot_def rotl64_def)

lemma keccak_empty_f:
  "keccak_f [
     0x0000000000000180, 0x0000000000000000, 0x0000000000000000, 0x0000000000000000,
     0x0000000000000000, 0x0000000000000000, 0x0000000000000000, 0x0000000000000000,
     0x0000000000000000, 0x0000000000000000, 0x0000000000000000, 0x0000000000000000,
     0x0000000000000000, 0x0000000000000000, 0x0000000000000000, 0x0000000000000000,
     0x8000000000000000, 0x0000000000000000, 0x0000000000000000, 0x0000000000000000,
     0x0000000000000000, 0x0000000000000000, 0x0000000000000000, 0x0000000000000000,
     0x0000000000000000] =
   [
     0xA655CC1B171FE856, 0x6EF8C092E64583FF, 0xC0AD6C991BE0485B, 0x21B463E3B52F6201,
     0x6F2789526BDCB6FA, 0xB9A4DFA32E467194, 0x7FBF54770EAC2B9D, 0x3B151FB49843C62A,
     0x7456E960FEC6DD27, 0x280BA513315A09B9, 0x7E575E5CFA088096, 0xAC01167B7B5D86FB,
     0xEF9B6D2997B479F9, 0x6D93135B74FAB5FA, 0xE593186487A0CC7B, 0x349AD316F75F5F7E,
     0x7055A8558EF92038, 0xBD670349DCB6A5B4, 0x670D5078A2288496, 0x27F151402ABA31FD,
     0xCC7ACC34CF013622, 0x61E0A6C7F80274D2, 0xF72051E0EEB4827C, 0x9A7F5EF7DCD7ED2B,
     0x56DB3F518F237F3F]"
  unfolding keccak_f_def keccak_RC_def foldl.simps
  by (simp only: keccak_empty_round_0 keccak_empty_round_1 keccak_empty_round_2 keccak_empty_round_3 keccak_empty_round_4 keccak_empty_round_5 keccak_empty_round_6 keccak_empty_round_7 keccak_empty_round_8 keccak_empty_round_9 keccak_empty_round_10 keccak_empty_round_11 keccak_empty_round_12 keccak_empty_round_13 keccak_empty_round_14 keccak_empty_round_15 keccak_empty_round_16 keccak_empty_round_17 keccak_empty_round_18 keccak_empty_round_19 keccak_empty_round_20 keccak_empty_round_21 keccak_empty_round_22 keccak_empty_round_23)

lemma replicate_134:
  "replicate 134 (0::byte) =
     [0, 0, 0, 0, 0, 0, 0, 0, 0, 0, 0, 0, 0, 0, 0, 0, 0, 0, 0, 0, 0, 0, 0, 0, 0, 0, 0, 0,
     0, 0, 0, 0, 0, 0, 0, 0, 0, 0, 0, 0, 0, 0, 0, 0, 0, 0, 0, 0, 0, 0, 0, 0, 0, 0, 0, 0,
     0, 0, 0, 0, 0, 0, 0, 0, 0, 0, 0, 0, 0, 0, 0, 0, 0, 0, 0, 0, 0, 0, 0, 0, 0, 0, 0, 0,
     0, 0, 0, 0, 0, 0, 0, 0, 0, 0, 0, 0, 0, 0, 0, 0, 0, 0, 0, 0, 0, 0, 0, 0, 0, 0, 0, 0,
     0, 0, 0, 0, 0, 0, 0, 0, 0, 0, 0, 0, 0, 0, 0, 0, 0, 0, 0, 0, 0, 0]"
  by (simp add: eval_nat_numeral)

lemma keccak_empty_pad:
  "keccak_pad [0x80] =
     [0x80, 1, 0, 0, 0, 0, 0, 0, 0, 0, 0, 0, 0, 0, 0, 0, 0, 0, 0, 0, 0, 0, 0, 0, 0, 0, 0,
     0, 0, 0, 0, 0, 0, 0, 0, 0, 0, 0, 0, 0, 0, 0, 0, 0, 0, 0, 0, 0, 0, 0, 0, 0, 0, 0, 0,
     0, 0, 0, 0, 0, 0, 0, 0, 0, 0, 0, 0, 0, 0, 0, 0, 0, 0, 0, 0, 0, 0, 0, 0, 0, 0, 0, 0,
     0, 0, 0, 0, 0, 0, 0, 0, 0, 0, 0, 0, 0, 0, 0, 0, 0, 0, 0, 0, 0, 0, 0, 0, 0, 0, 0, 0,
     0, 0, 0, 0, 0, 0, 0, 0, 0, 0, 0, 0, 0, 0, 0, 0, 0, 0, 0, 0, 0, 0, 0, 0, 0x80]"
  by (simp add: keccak_pad_def replicate_134)

lemma replicate_25:
  "replicate 25 (0::lane) = [0, 0, 0, 0, 0, 0, 0, 0, 0, 0, 0, 0, 0, 0, 0, 0, 0, 0, 0, 0, 0, 0, 0, 0, 0]"
  by (simp add: eval_nat_numeral)

lemma keccak_empty_absorb:
  "keccak_absorb (replicate 25 0)
     [0x80, 1, 0, 0, 0, 0, 0, 0, 0, 0, 0, 0, 0, 0, 0, 0, 0, 0, 0, 0, 0, 0, 0, 0, 0, 0, 0,
     0, 0, 0, 0, 0, 0, 0, 0, 0, 0, 0, 0, 0, 0, 0, 0, 0, 0, 0, 0, 0, 0, 0, 0, 0, 0, 0, 0,
     0, 0, 0, 0, 0, 0, 0, 0, 0, 0, 0, 0, 0, 0, 0, 0, 0, 0, 0, 0, 0, 0, 0, 0, 0, 0, 0, 0,
     0, 0, 0, 0, 0, 0, 0, 0, 0, 0, 0, 0, 0, 0, 0, 0, 0, 0, 0, 0, 0, 0, 0, 0, 0, 0, 0, 0,
     0, 0, 0, 0, 0, 0, 0, 0, 0, 0, 0, 0, 0, 0, 0, 0, 0, 0, 0, 0, 0, 0, 0, 0, 0x80] =
   keccak_f [
     0x0000000000000180, 0x0000000000000000, 0x0000000000000000, 0x0000000000000000,
     0x0000000000000000, 0x0000000000000000, 0x0000000000000000, 0x0000000000000000,
     0x0000000000000000, 0x0000000000000000, 0x0000000000000000, 0x0000000000000000,
     0x0000000000000000, 0x0000000000000000, 0x0000000000000000, 0x0000000000000000,
     0x8000000000000000, 0x0000000000000000, 0x0000000000000000, 0x0000000000000000,
     0x0000000000000000, 0x0000000000000000, 0x0000000000000000, 0x0000000000000000,
     0x0000000000000000]"
  by (simp add: keccak_absorb.simps[of _ "_ # _"] keccak_absorb.simps[of _ "[]"] replicate_25)

lemma keccak256_rlp_empty: "keccak256 [0x80] = state_emptyRoot"
  unfolding keccak256_def keccak_empty_pad keccak_empty_absorb keccak_empty_f
  by (simp add: lane_bytes_def state_emptyRoot_def)

text \<open>
  C1. The empty-trie root constant equals Keccak-256 of the RLP encoding of the empty
  string and is the 32-byte value \<open>0x56e81f17...e363b421\<close>; the \<open>EMPTY_ROOT\<close> opcode
  appends to the hash stack the byte \<open>0x80 + 32\<close> followed by this constant.
\<close>

theorem emptyRoot_constant:
  "state_emptyRoot = keccak256 (rlp_string []) \<and>
   state_emptyRoot =
     [0x56, 0xe8, 0x1f, 0x17, 0x1b, 0xcc, 0x55, 0xa6, 0xff, 0x83, 0x45, 0xe6, 0x92, 0xc0, 0xf8, 0x6e,
      0x5b, 0x48, 0xe0, 0x1b, 0x99, 0x6c, 0xad, 0xc0, 0x01, 0x62, 0x2f, 0xb5, 0xe3, 0x63, 0xb4, 0x21] \<and>
   length state_emptyRoot = 32 \<and>
   EmptyRoot = state_emptyRoot \<and>
   hashStack (emptyRoot hb) = hashStack hb @ [0x80 + 32] @ state_emptyRoot"
proof (intro conjI)
  have "rlp_string [] = [0x80]" by (simp add: rlp_string_def rlp_header_def)
  then show "state_emptyRoot = keccak256 (rlp_string [])" by (simp add: keccak256_rlp_empty)
  show "hashStack (emptyRoot hb) = hashStack hb @ [0x80 + 32] @ state_emptyRoot"
    by (simp add: emptyRoot_def EmptyRoot_def)
  show "length state_emptyRoot = 32" by (simp add: state_emptyRoot_def)
  show "EmptyRoot = state_emptyRoot" by (simp add: EmptyRoot_def)
qed (simp add: state_emptyRoot_def)

end
